theory Spec2Isabelle
  imports Main "HOL-Library.Sublist"
begin

section \<open>Sequential promise pipeline (\<^verbatim>\<open>promiseChain\<close>)\<close>

text \<open>
  The source chains one \<^verbatim>\<open>.then\<close> per list item onto \<^verbatim>\<open>Promise.resolve(result)\<close>:
  \<^verbatim>\<open>
  function promiseChain (list, callback, result) {
    var done = 0;
    var finalPromise = list.reduce(function (promiseChain, item) {
      return promiseChain.then(function (accumulator) {
        if (finalPromise.onbeforeprogress) finalPromise.onbeforeprogress(
            {item: item, result: accumulator, doneCount: done, totalCount: list.length});
        return new Promise(function (resolve, reject) {
          callback(function (data) {
            done++;
            if (finalPromise.onafterprogress) finalPromise.onafterprogress(
                {item: item, result: data, doneCount: done, totalCount: list.length});
            resolve(data);
          }, reject, item, accumulator);
        });
      });
    }, Promise.resolve(result));
    return finalPromise;
  }
  \<close>
  A promise is a three-valued cell. The run is modelled by explicit state passing: the
  counter \<^verbatim>\<open>done\<close>, the state of the promise at the end of the chain, and the trace of
  every handler and callback invocation in the order in which they happen.
\<close>

datatype ('e, 'a) promise = Pending | Fulfilled 'a | Rejected 'e

record ('i, 'a) progress =
  item :: 'i
  result :: 'a
  doneCount :: nat
  totalCount :: nat

datatype ('i, 'a) effect =
    BeforeProgress "('i, 'a) progress"
  | CallbackCall 'i 'a
  | AfterProgress "('i, 'a) progress"

record ('i, 'a, 'e) chain_state =
  doneN :: nat
  chain :: "('e, 'a) promise"
  effects :: "('i, 'a) effect list"

type_synonym ('i, 'a, 'e) cont = "('i, 'a, 'e) chain_state \<Rightarrow> ('i, 'a, 'e) chain_state"

type_synonym ('i, 'a, 'e) callback =
  "('a \<Rightarrow> ('i, 'a, 'e) cont) \<Rightarrow> ('e \<Rightarrow> ('i, 'a, 'e) cont) \<Rightarrow> 'i \<Rightarrow> 'a \<Rightarrow> ('i, 'a, 'e) cont"

definition emit :: "('i, 'a) effect \<Rightarrow> ('i, 'a, 'e) cont" where
  "emit ev s = s\<lparr>effects := effects s @ [ev]\<rparr>"

text \<open>The two settling functions of \<^verbatim>\<open>new Promise\<close>: only the first call has an effect.\<close>

definition resolve :: "'a \<Rightarrow> ('i, 'a, 'e) cont" where
  "resolve data s = (if chain s = Pending then s\<lparr>chain := Fulfilled data\<rparr> else s)"

definition reject :: "'e \<Rightarrow> ('i, 'a, 'e) cont" where
  "reject reason s = (if chain s = Pending then s\<lparr>chain := Rejected reason\<rparr> else s)"

text \<open>The function handed to the callback in place of \<^verbatim>\<open>resolve\<close>.\<close>

definition on_resolve :: "bool \<Rightarrow> nat \<Rightarrow> 'i \<Rightarrow> 'a \<Rightarrow> ('i, 'a, 'e) cont" where
  "on_resolve onafterprogress len it data s =
     (let s1 = s\<lparr>doneN := doneN s + 1\<rparr>;
          s2 = (if onafterprogress
                then emit (AfterProgress \<lparr>item = it, result = data,
                                          doneCount = doneN s1, totalCount = len\<rparr>) s1
                else s1)
      in resolve data s2)"

text \<open>
  One link of the chain, \<^verbatim>\<open>promiseChain.then(function (accumulator) {...})\<close>: the
  function runs only when the promise before it is fulfilled; a rejected promise passes
  its reason on and a pending one stays pending.
\<close>

definition chain_then ::
  "bool \<Rightarrow> bool \<Rightarrow> nat \<Rightarrow> ('i, 'a, 'e) callback \<Rightarrow> ('i, 'a, 'e) chain_state \<Rightarrow> 'i
     \<Rightarrow> ('i, 'a, 'e) chain_state" where
  "chain_then onbeforeprogress onafterprogress len callback s it =
     (case chain s of
        Fulfilled accumulator \<Rightarrow>
          (let s1 = (if onbeforeprogress
                     then emit (BeforeProgress \<lparr>item = it, result = accumulator,
                                                 doneCount = doneN s, totalCount = len\<rparr>) s
                     else s);
               s2 = emit (CallbackCall it accumulator) (s1\<lparr>chain := Pending\<rparr>)
           in callback (on_resolve onafterprogress len it) reject it accumulator s2)
      | _ \<Rightarrow> s)"

definition promiseChain ::
  "bool \<Rightarrow> bool \<Rightarrow> 'i list \<Rightarrow> ('i, 'a, 'e) callback \<Rightarrow> 'a \<Rightarrow> ('i, 'a, 'e) chain_state" where
  "promiseChain onbeforeprogress onafterprogress list callback result0 =
     foldl (chain_then onbeforeprogress onafterprogress (length list) callback)
       \<lparr>doneN = 0, chain = Fulfilled result0, effects = []\<rparr> list"

text \<open>
  A step in the sense of the specification returns a promise of the new accumulator; the
  callback built from it calls exactly one of its two continuations, or none when the
  promise never settles (\<open>None\<close>).
\<close>

definition settle :: "('i \<Rightarrow> 'a \<Rightarrow> ('e + 'a) option) \<Rightarrow> ('i, 'a, 'e) callback" where
  "settle step res rej it accumulator =
     (case step it accumulator of
        None \<Rightarrow> (\<lambda>s. s)
      | Some (Inr data) \<Rightarrow> res data
      | Some (Inl reason) \<Rightarrow> rej reason)"

text \<open>Projections of the trace.\<close>

fun step_calls :: "('i, 'a) effect list \<Rightarrow> ('i \<times> 'a) list" where
  "step_calls [] = []"
| "step_calls (CallbackCall it a # es) = (it, a) # step_calls es"
| "step_calls (_ # es) = step_calls es"

fun before_events :: "('i, 'a) effect list \<Rightarrow> ('i, 'a) progress list" where
  "before_events [] = []"
| "before_events (BeforeProgress p # es) = p # before_events es"
| "before_events (_ # es) = before_events es"

fun after_events :: "('i, 'a) effect list \<Rightarrow> ('i, 'a) progress list" where
  "after_events [] = []"
| "after_events (AfterProgress p # es) = p # after_events es"
| "after_events (_ # es) = after_events es"

text \<open>
  The trace the specification describes for a run that starts with \<open>k\<close> steps done and
  accumulator \<open>acc\<close>: before event, step call, and after event on success; nothing after
  a step that does not resolve.
\<close>

fun pipeline_trace ::
  "bool \<Rightarrow> bool \<Rightarrow> ('i \<Rightarrow> 'a \<Rightarrow> ('e + 'a) option) \<Rightarrow> nat \<Rightarrow> nat \<Rightarrow> 'a \<Rightarrow> 'i list
     \<Rightarrow> ('i, 'a) effect list" where
  "pipeline_trace hb ha step len k acc [] = []"
| "pipeline_trace hb ha step len k acc (x # xs) =
     (if hb then [BeforeProgress \<lparr>item = x, result = acc, doneCount = k, totalCount = len\<rparr>]
      else [])
     @ CallbackCall x acc
     # (case step x acc of
          Some (Inr data) \<Rightarrow>
            (if ha then [AfterProgress \<lparr>item = x, result = data, doneCount = Suc k,
                                        totalCount = len\<rparr>]
             else [])
            @ pipeline_trace hb ha step len (Suc k) data xs
        | _ \<Rightarrow> [])"

text \<open>The promise the specification describes for the same run.\<close>

fun pipeline_result :: "('i \<Rightarrow> 'a \<Rightarrow> ('e + 'a) option) \<Rightarrow> 'a \<Rightarrow> 'i list \<Rightarrow> ('e, 'a) promise" where
  "pipeline_result step acc [] = Fulfilled acc"
| "pipeline_result step acc (x # xs) =
     (case step x acc of
        None \<Rightarrow> Pending
      | Some (Inl reason) \<Rightarrow> Rejected reason
      | Some (Inr data) \<Rightarrow> pipeline_result step data xs)"

text \<open>The calls a run makes, with the accumulator each one receives.\<close>

fun pipeline_calls :: "('i \<Rightarrow> 'a \<Rightarrow> ('e + 'a) option) \<Rightarrow> 'a \<Rightarrow> 'i list \<Rightarrow> ('i \<times> 'a) list" where
  "pipeline_calls step acc [] = []"
| "pipeline_calls step acc (x # xs) =
     (x, acc) # (case step x acc of Some (Inr data) \<Rightarrow> pipeline_calls step data xs | _ \<Rightarrow> [])"

text \<open>The steps that resolve, with the value each one resolves to, and their number.\<close>

fun pipeline_resolved :: "('i \<Rightarrow> 'a \<Rightarrow> ('e + 'a) option) \<Rightarrow> 'a \<Rightarrow> 'i list \<Rightarrow> ('i \<times> 'a) list" where
  "pipeline_resolved step acc [] = []"
| "pipeline_resolved step acc (x # xs) =
     (case step x acc of Some (Inr data) \<Rightarrow> (x, data) # pipeline_resolved step data xs | _ \<Rightarrow> [])"

fun pipeline_done :: "('i \<Rightarrow> 'a \<Rightarrow> ('e + 'a) option) \<Rightarrow> 'a \<Rightarrow> 'i list \<Rightarrow> nat" where
  "pipeline_done step acc [] = 0"
| "pipeline_done step acc (x # xs) =
     (case step x acc of Some (Inr data) \<Rightarrow> Suc (pipeline_done step data xs) | _ \<Rightarrow> 0)"

definition progress_of :: "nat \<Rightarrow> nat \<times> 'i \<times> 'a \<Rightarrow> ('i, 'a) progress" where
  "progress_of len = (\<lambda>(k, x, a). \<lparr>item = x, result = a, doneCount = k, totalCount = len\<rparr>)"


section \<open>Windowed content cache (\<^verbatim>\<open>RootModel\<close>)\<close>

text \<open>
  Errors are values. The source throws the object \<^verbatim>\<open>{ detail: "Invalid page." }\<close>; a
  rejected remote call carries an error object of the same shape.
\<close>

datatype error = ErrorDetail (detail: string) | NotFound

definition InvalidPage :: error where
  "InvalidPage = ErrorDetail ''Invalid page.''"

text \<open>
  A call of \<^verbatim>\<open>loadFiltered\<close>: the class it is called on, the one filter entry
  \<^verbatim>\<open>{[param]: this.id}\<close>, the \<^verbatim>\<open>search\<close> entry when there is one, and the page
  and page size when they are passed. The answer is \<^verbatim>\<open>{count, objects}\<close>; the code
  only reads \<^verbatim>\<open>object.id\<close> of each object, so \<open>objects\<close> holds the ids.
\<close>

record request =
  modelClass :: string
  filterParam :: string
  filterValue :: int
  search :: "string option"
  paging :: "(int \<times> int) option"

datatype loaded = Loaded (loaded_count: nat) (objects: "int list")

type_synonym remote = "request \<Rightarrow> error + loaded"

text \<open>
  \<^verbatim>\<open>rootModelMeta\<close>, without the names and cards of the display; \<open>modelName\<close> stands
  for the class itself (\<^verbatim>\<open>this.constructor\<close>) and \<open>contentsClass\<close> for the class of
  the contents.
\<close>

record rootModelMeta =
  modelName :: string
  hasRoots :: bool
  rootsFilterParam :: string
  contentsFilterParam :: string
  contentsClass :: string

text \<open>
  \<^verbatim>\<open>{ count: number; objectIds: number[] }\<close>, where a slot not yet fetched is \<^verbatim>\<open>null\<close>.
  Ids, page numbers and page sizes are integers (the code computes with them and passes
  them to \<^verbatim>\<open>slice\<close>, so zero and negative values are kept); a count is the number
  of items of a listing, a natural number.
\<close>

record objectSet =
  count :: nat
  objectIds :: "int option list"

record RootModel =
  model_id :: int
  roots :: "string option \<rightharpoonup> int list"
  contents :: "string option \<rightharpoonup> objectSet"

text \<open>\<^verbatim>\<open>searchQuery || null\<close>: an absent and an empty search string are both \<^verbatim>\<open>null\<close>.\<close>

definition or_null :: "string option \<Rightarrow> string option" where
  "or_null searchQuery = (case searchQuery of None \<Rightarrow> None | Some q \<Rightarrow> if q = [] then None else Some q)"

text \<open>
  \<^verbatim>\<open>Array.prototype.slice\<close> on integer arguments: a negative index counts from the
  end, and both ends are clamped to the array.
\<close>

definition slice_index :: "nat \<Rightarrow> int \<Rightarrow> nat" where
  "slice_index len k = (if k < 0 then nat (max (int len + k) 0) else min (nat k) len)"

definition slice :: "'a list \<Rightarrow> int \<Rightarrow> int \<Rightarrow> 'a list" where
  "slice xs start stop =
     (let k = slice_index (length xs) start; final = slice_index (length xs) stop
      in take (final - k) (drop k xs))"

definition slice_from :: "'a list \<Rightarrow> int \<Rightarrow> 'a list" where
  "slice_from xs start = drop (slice_index (length xs) start) xs"

text \<open>
  \<^verbatim>\<open>getRoots\<close>. The result is the outcome of the promise, the instance after the call,
  and the remote calls the call issued.
\<close>

definition roots_request :: "rootModelMeta \<Rightarrow> RootModel \<Rightarrow> string option \<Rightarrow> request" where
  "roots_request meta this searchQuery =
     \<lparr>modelClass = modelName meta, filterParam = rootsFilterParam meta,
      filterValue = model_id this, search = searchQuery, paging = None\<rparr>"

definition getRoots ::
  "rootModelMeta \<Rightarrow> remote \<Rightarrow> string option \<Rightarrow> RootModel
     \<Rightarrow> (error + int list option) \<times> RootModel \<times> request list" where
  "getRoots meta loadFiltered searchQuery0 this =
     (if \<not> hasRoots meta then (Inr None, this, [])
      else
        let searchQuery = or_null searchQuery0 in
        case roots this searchQuery of
          Some existingRootIds \<Rightarrow> (Inr (Some existingRootIds), this, [])
        | None \<Rightarrow>
            (let req = roots_request meta this searchQuery in
             case loadFiltered req of
               Inl e \<Rightarrow> (Inl e, this, [req])
             | Inr rootsData \<Rightarrow>
                 (let ids = objects rootsData
                  in (Inr (Some ids), this\<lparr>roots := (roots this)(searchQuery \<mapsto> ids)\<rparr>, [req]))))"

text \<open>
  \<^verbatim>\<open>getContentObjects\<close>, first part (``Get from previously loaded content''): the
  outcome when the call is settled from the cache, \<open>None\<close> when it goes on to the
  remote store.
\<close>

definition from_cache :: "objectSet option \<Rightarrow> int \<Rightarrow> int \<Rightarrow> (error + objectSet) option" where
  "from_cache existingContents page pageSize =
     (case existingContents of
        None \<Rightarrow> None
      | Some ec \<Rightarrow>
          if count ec > 0 \<and> (page - 1) * pageSize \<ge> int (count ec) then Some (Inl InvalidPage)
          else
            let pageIds = slice (objectIds ec) ((page - 1) * pageSize) (page * pageSize) in
            if list_all (\<lambda>i. i \<noteq> None) pageIds
            then Some (Inr \<lparr>count = count ec, objectIds = pageIds\<rparr>)
            else None)"

definition contents_request ::
  "rootModelMeta \<Rightarrow> RootModel \<Rightarrow> string option \<Rightarrow> int \<Rightarrow> int \<Rightarrow> request" where
  "contents_request meta this searchQuery page pageSize =
     \<lparr>modelClass = contentsClass meta, filterParam = contentsFilterParam meta,
      filterValue = model_id this, search = searchQuery, paging = Some (page, pageSize)\<rparr>"

text \<open>
  Second part (``Save to stored content''): \<^verbatim>\<open>oldIds\<close> is the stored array, or an
  array of \<^verbatim>\<open>contentsData.count\<close> unknown slots when nothing is stored yet;
  \<^verbatim>\<open>allObjectIds\<close> is the merged array.
\<close>

definition oldIds :: "objectSet option \<Rightarrow> loaded \<Rightarrow> int option list" where
  "oldIds existingContents contentsData =
     (case existingContents of
        Some ec \<Rightarrow> objectIds ec
      | None \<Rightarrow> replicate (loaded_count contentsData) None)"

definition merge_ids :: "objectSet option \<Rightarrow> loaded \<Rightarrow> int \<Rightarrow> int \<Rightarrow> int option list" where
  "merge_ids existingContents contentsData page pageSize =
     (let newIds = map Some (objects contentsData)
      in slice (oldIds existingContents contentsData) 0 ((page - 1) * pageSize)
         @ (newIds @ slice_from (oldIds existingContents contentsData) (page * pageSize)))"

definition getContentObjects ::
  "rootModelMeta \<Rightarrow> remote \<Rightarrow> int \<Rightarrow> int \<Rightarrow> string option \<Rightarrow> RootModel
     \<Rightarrow> (error + objectSet) \<times> RootModel \<times> request list" where
  "getContentObjects meta loadFiltered page pageSize searchQuery0 this =
     (let searchQuery = or_null searchQuery0;
          existingContents = contents this searchQuery in
      case from_cache existingContents page pageSize of
        Some outcome \<Rightarrow> (outcome, this, [])
      | None \<Rightarrow>
          (let req = contents_request meta this searchQuery page pageSize in
           case loadFiltered req of
             Inl e \<Rightarrow> (Inl e, this, [req])
           | Inr contentsData \<Rightarrow>
               (let allObjectIds = merge_ids existingContents contentsData page pageSize
                in (Inr \<lparr>count = loaded_count contentsData,
                         objectIds = map Some (objects contentsData)\<rparr>,
                    this\<lparr>contents := (contents this)(searchQuery \<mapsto>
                       \<lparr>count = loaded_count contentsData, objectIds = allObjectIds\<rparr>)\<rparr>,
                    [req]))))"


section \<open>Albums: adding files and refreshing the parent chain\<close>

text \<open>
  Instances live in the identity map of their class (\<^verbatim>\<open>Album.meta.objects\<close>); a
  reference to an instance is its key in that map.
\<close>

record Album = RootModel +
  name :: string
  file_count :: int
  parentID :: "int option"

type_synonym registry = "int \<rightharpoonup> Album"

text \<open>
  \<^verbatim>\<open>Album.rootModelMeta\<close>: the contents of an album are the files filtered by
  \<^verbatim>\<open>album\<close>; albums have no roots.
\<close>

definition Album_rootModelMeta :: rootModelMeta where
  "Album_rootModelMeta =
     \<lparr>modelName = ''Album'', hasRoots = False, rootsFilterParam = [],
      contentsFilterParam = ''album'', contentsClass = ''FileObject''\<rparr>"

text \<open>
  Modelled from the spec: \<^verbatim>\<open>getById\<close> (\<^verbatim>\<open>Model.ts\<close> is not among the sources)
  returns the registered instance or fails with the NotFound condition.
\<close>

definition getById :: "(int \<rightharpoonup> 'a) \<Rightarrow> int \<Rightarrow> error + 'a" where
  "getById reg i = (case reg i of None \<Rightarrow> Inl NotFound | Some a \<Rightarrow> Inr a)"

text \<open>
  Modelled from the spec: \<^verbatim>\<open>resetData\<close> (\<^verbatim>\<open>Model.ts\<close> is not among the sources)
  clears the caches of a container.
\<close>

definition resetData :: "Album \<Rightarrow> Album" where
  "resetData a = a\<lparr>roots := Map.empty, contents := Map.empty\<rparr>"

text \<open>
  The getter \<^verbatim>\<open>parent\<close>:
  \<^verbatim>\<open>return this.parentID === null ? null : Album.getById(this.parentID);\<close>
\<close>

definition parent :: "registry \<Rightarrow> Album \<Rightarrow> error + int option" where
  "parent reg a =
     (case parentID a of
        None \<Rightarrow> Inr None
      | Some p \<Rightarrow> (case getById reg p of Inl e \<Rightarrow> Inl e | Inr _ \<Rightarrow> Inr (Some p)))"

text \<open>
  The calls that leave the model: \<^verbatim>\<open>Database.create(DBTables.AlbumFile, {album, file})\<close>
  and \<^verbatim>\<open>Album.loadIds(ids, true)\<close>.
\<close>

datatype db_call = CreateAlbumFile int int | LoadIds "int list" bool

text \<open>
  The loop of \<^verbatim>\<open>updateParents\<close>:
  \<^verbatim>\<open>
  while (current !== null) {
    ids.push(current.id);
    current.resetData();
    current = current.parent;
  }
  \<close>
  It need not end (a cycle of parents), so not returning is the value \<open>None\<close>.
\<close>

partial_function (option) updateParents_loop ::
  "registry \<Rightarrow> int list \<Rightarrow> int option \<Rightarrow> ((error + int list) \<times> registry) option" where
  "updateParents_loop reg ids current =
     (case current of
        None \<Rightarrow> Some (Inr ids, reg)
      | Some c \<Rightarrow>
          (case reg c of
             None \<Rightarrow> Some (Inl NotFound, reg)
           | Some cur \<Rightarrow>
               (case parent (reg(c \<mapsto> resetData cur)) (resetData cur) of
                  Inl e \<Rightarrow> Some (Inl e, reg(c \<mapsto> resetData cur))
                | Inr next \<Rightarrow>
                    updateParents_loop (reg(c \<mapsto> resetData cur)) (ids @ [model_id cur]) next)))"

definition updateParents ::
  "registry \<Rightarrow> int \<Rightarrow> ((error + unit) \<times> registry \<times> db_call list) option" where
  "updateParents reg this =
     (case updateParents_loop reg [] (Some this) of
        None \<Rightarrow> None
      | Some (Inl e, reg') \<Rightarrow> Some (Inl e, reg', [])
      | Some (Inr ids, reg') \<Rightarrow> Some (Inr (), reg', [LoadIds ids True]))"

text \<open>
  \<^verbatim>\<open>addFile\<close>: the remote create is a parameter; it resolves, rejects, or never
  settles (\<open>None\<close>).
\<close>

type_synonym creator = "int \<Rightarrow> int \<Rightarrow> (error + unit) option"

definition addFile ::
  "creator \<Rightarrow> registry \<Rightarrow> int \<Rightarrow> int \<Rightarrow> bool
     \<Rightarrow> ((error, unit) promise \<times> registry \<times> db_call list) option" where
  "addFile create reg this fileId multiple =
     (case reg this of
        None \<Rightarrow> Some (Rejected NotFound, reg, [])
      | Some a \<Rightarrow>
          (case create (model_id a) fileId of
             None \<Rightarrow> Some (Pending, reg, [CreateAlbumFile (model_id a) fileId])
           | Some (Inl e) \<Rightarrow> Some (Rejected e, reg, [CreateAlbumFile (model_id a) fileId])
           | Some (Inr _) \<Rightarrow>
               if multiple then Some (Fulfilled (), reg, [CreateAlbumFile (model_id a) fileId])
               else
                 (case updateParents reg this of
                    None \<Rightarrow> None
                  | Some (Inl e, reg', calls) \<Rightarrow>
                      Some (Rejected e, reg', CreateAlbumFile (model_id a) fileId # calls)
                  | Some (Inr _, reg', calls) \<Rightarrow>
                      Some (Fulfilled (), reg', CreateAlbumFile (model_id a) fileId # calls))))"

text \<open>
  The callback of \<^verbatim>\<open>addFiles\<close>,
  \<^verbatim>\<open>this.addFile(fileId, true).then(resolve).catch(reject)\<close>: how the promise of
  \<^verbatim>\<open>addFile\<close> settles, and the calls it issued.
\<close>

definition addFile_step :: "creator \<Rightarrow> registry \<Rightarrow> int \<Rightarrow> int \<Rightarrow> unit \<Rightarrow> (error + unit) option" where
  "addFile_step create reg this fileId accumulator =
     (case addFile create reg this fileId True of
        Some (Fulfilled u, _, _) \<Rightarrow> Some (Inr u)
      | Some (Rejected e, _, _) \<Rightarrow> Some (Inl e)
      | _ \<Rightarrow> None)"

definition addFile_calls :: "creator \<Rightarrow> registry \<Rightarrow> int \<Rightarrow> int \<Rightarrow> db_call list" where
  "addFile_calls create reg this fileId =
     (case addFile create reg this fileId True of Some (_, _, calls) \<Rightarrow> calls | None \<Rightarrow> [])"

text \<open>
  \<^verbatim>\<open>
  async addFiles(files: number[]): Promise<void> {
    await promiseChain(files, (resolve, reject, fileId) => { ... });
    this.updateParents();
  }
  \<close>
  \<^verbatim>\<open>Album.ts\<close> imports \<^verbatim>\<open>promiseChain\<close> from \<^verbatim>\<open>../utils\<close>, which is not among the
  sources; the function of that name modelled above is used. No progress handler is
  registered and the initial accumulator is \<^verbatim>\<open>undefined\<close>.
\<close>

definition addFiles ::
  "creator \<Rightarrow> registry \<Rightarrow> int \<Rightarrow> int list
     \<Rightarrow> ((error, unit) promise \<times> registry \<times> db_call list) option" where
  "addFiles create reg this files =
     (let run = promiseChain False False files (settle (addFile_step create reg this)) ();
          calls = concat (map (\<lambda>(fileId, _). addFile_calls create reg this fileId)
                    (step_calls (effects run)))
      in case chain run of
           Pending \<Rightarrow> Some (Pending, reg, calls)
         | Rejected e \<Rightarrow> Some (Rejected e, reg, calls)
         | Fulfilled _ \<Rightarrow>
             (case updateParents reg this of
                None \<Rightarrow> None
              | Some (Inl e, reg', calls') \<Rightarrow> Some (Rejected e, reg', calls @ calls')
              | Some (Inr _, reg', calls') \<Rightarrow> Some (Fulfilled (), reg', calls @ calls')))"

text \<open>
  The parent chain of an album, from the album to a root-level album: every album on it
  is registered under its own id. A cycle of parents has no such chain.
\<close>

inductive parent_chain :: "registry \<Rightarrow> int option \<Rightarrow> int list \<Rightarrow> bool" where
  root: "parent_chain reg None []"
| link: "reg c = Some a \<Longrightarrow> model_id a = c \<Longrightarrow> parent_chain reg (parentID a) ids
         \<Longrightarrow> parent_chain reg (Some c) (c # ids)"

code_pred parent_chain .



section \<open>Serialising the geotag of a file\<close>

text \<open>
  The wire form of a geotag is an object with an \<^verbatim>\<open>id\<close> and optional properties; an
  absent property is \<open>None\<close>, and \<^verbatim>\<open>area\<close> may be present and \<^verbatim>\<open>null\<close>. Coordinates
  are left abstract.
\<close>

record 'n geotag_wire =
  wire_id :: int
  wire_latitude :: "'n option"
  wire_longitude :: "'n option"
  wire_area :: "int option option"
  wire_locationModified :: bool
  wire_areaModified :: bool

record 'n GeoTag =
  geotag_id :: int
  latitude :: "'n option"
  longitude :: "'n option"
  areaID :: "int option"
  locationModified :: bool
  areaModified :: bool

record GeoTagArea =
  area_id :: int
  area_name :: string

record FileObject =
  file_id :: int
  geotagID :: "int option"

text \<open>
  Modelled from the spec: \<^verbatim>\<open>addObject\<close> (\<^verbatim>\<open>Model.ts\<close> is not among the sources)
  creates the instance with the record's id or merges the record into the existing one,
  property by property, and returns the instance.
\<close>

definition addObject ::
  "'n geotag_wire \<Rightarrow> (int \<rightharpoonup> 'n GeoTag) \<Rightarrow> 'n GeoTag \<times> (int \<rightharpoonup> 'n GeoTag)" where
  "addObject w reg =
     (let base = (case reg (wire_id w) of
                    Some g \<Rightarrow> g
                  | None \<Rightarrow> \<lparr>geotag_id = wire_id w, latitude = None, longitude = None,
                             areaID = None, locationModified = False, areaModified = False\<rparr>);
          g = base\<lparr>geotag_id := wire_id w,
                   latitude := (case wire_latitude w of None \<Rightarrow> latitude base | Some v \<Rightarrow> Some v),
                   longitude := (case wire_longitude w of None \<Rightarrow> longitude base | Some v \<Rightarrow> Some v),
                   areaID := (case wire_area w of None \<Rightarrow> areaID base | Some v \<Rightarrow> v)\<rparr>
      in (g, reg(wire_id w \<mapsto> g)))"

text \<open>
  \<^verbatim>\<open>specialProps.geotag.deserialize(file, prop)\<close>; the flags are set on
  \<^verbatim>\<open>file.geotag\<close>, that is on \<^verbatim>\<open>GeoTag.getById(file.geotagID)\<close>.
\<close>

definition set_flag ::
  "bool \<Rightarrow> ('n GeoTag \<Rightarrow> 'n GeoTag) \<Rightarrow> int \<Rightarrow> (int \<rightharpoonup> 'n GeoTag) \<Rightarrow> error + (int \<rightharpoonup> 'n GeoTag)" where
  "set_flag flag upd i reg =
     (if flag then (case getById reg i of Inl e \<Rightarrow> Inl e | Inr g \<Rightarrow> Inr (reg(i \<mapsto> upd g)))
      else Inr reg)"

definition deserialize ::
  "FileObject \<Rightarrow> 'n geotag_wire option \<Rightarrow> (int \<rightharpoonup> 'n GeoTag)
     \<Rightarrow> error + FileObject \<times> (int \<rightharpoonup> 'n GeoTag)" where
  "deserialize file prop reg =
     (case prop of
        None \<Rightarrow> Inr (file\<lparr>geotagID := None\<rparr>, reg)
      | Some w \<Rightarrow>
          (let (g, reg1) = addObject w reg;
               file1 = file\<lparr>geotagID := Some (geotag_id g)\<rparr>
           in case set_flag (wire_locationModified w) (\<lambda>g. g\<lparr>locationModified := True\<rparr>)
                     (geotag_id g) reg1 of
                Inl e \<Rightarrow> Inl e
              | Inr reg2 \<Rightarrow>
                  (case set_flag (wire_areaModified w) (\<lambda>g. g\<lparr>areaModified := True\<rparr>)
                          (geotag_id g) reg2 of
                     Inl e \<Rightarrow> Inl e
                   | Inr reg3 \<Rightarrow> Inr (file1, reg3))))"

text \<open>
  \<^verbatim>\<open>specialProps.geotag.serialize(obj, prop)\<close>: the value stored in
  \<^verbatim>\<open>obj.geotag\<close>. The getter \<^verbatim>\<open>prop.area\<close> is \<^verbatim>\<open>null\<close> for a null
  \<^verbatim>\<open>areaID\<close> and \<^verbatim>\<open>GeoTagArea.getById(areaID)\<close> otherwise, and is read only when
  \<^verbatim>\<open>areaModified\<close> is set.
\<close>

definition area :: "(int \<rightharpoonup> GeoTagArea) \<Rightarrow> 'n GeoTag \<Rightarrow> error + GeoTagArea option" where
  "area areas g =
     (case areaID g of
        None \<Rightarrow> Inr None
      | Some i \<Rightarrow> (case getById areas i of Inl e \<Rightarrow> Inl e | Inr a \<Rightarrow> Inr (Some a)))"

definition serialize ::
  "(int \<rightharpoonup> GeoTagArea) \<Rightarrow> 'n GeoTag option \<Rightarrow> error + 'n geotag_wire option" where
  "serialize areas prop =
     (case prop of
        None \<Rightarrow> Inr None
      | Some g \<Rightarrow>
          (let w0 = \<lparr>wire_id = geotag_id g, wire_latitude = None, wire_longitude = None,
                     wire_area = None, wire_locationModified = False,
                     wire_areaModified = False\<rparr>;
               w1 = (if locationModified g
                     then w0\<lparr>wire_latitude := latitude g, wire_longitude := longitude g\<rparr>
                     else w0)
           in if areaModified g
              then (case area areas g of
                      Inl e \<Rightarrow> Inl e
                    | Inr None \<Rightarrow> Inr (Some (w1\<lparr>wire_area := Some None\<rparr>))
                    | Inr (Some a) \<Rightarrow> Inr (Some (w1\<lparr>wire_area := Some (Some (area_id a))\<rparr>)))
              else Inr (Some w1)))"


section \<open>The pipeline runs its steps in order and stops at the first failure\<close>

lemma foldl_chain_then_unsettled:
  "\<forall>a. chain s \<noteq> Fulfilled a \<Longrightarrow> foldl (chain_then hb ha len cb) s xs = s"
  by (induction xs) (auto simp: chain_then_def split: promise.splits)

lemma chain_then_settle:
  "chain s = Fulfilled acc \<Longrightarrow>
   chain_then hb ha len (settle step) s x =
     s\<lparr>doneN := doneN s + (case step x acc of Some (Inr d) \<Rightarrow> 1 | _ \<Rightarrow> 0),
       chain := (case step x acc of None \<Rightarrow> Pending | Some (Inl e) \<Rightarrow> Rejected e
                 | Some (Inr d) \<Rightarrow> Fulfilled d),
       effects := effects s @ pipeline_trace hb ha step len (doneN s) acc [x]\<rparr>"
  by (simp add: chain_then_def settle_def emit_def on_resolve_def resolve_def reject_def Let_def
         split: option.splits sum.splits)

lemma foldl_chain_then_settle:
  "chain s = Fulfilled acc \<Longrightarrow>
   foldl (chain_then hb ha len (settle step)) s xs =
     s\<lparr>doneN := doneN s + pipeline_done step acc xs,
       chain := pipeline_result step acc xs,
       effects := effects s @ pipeline_trace hb ha step len (doneN s) acc xs\<rparr>"
proof (induction xs arbitrary: s acc)
  case Nil
  then show ?case by simp
next
  case (Cons x xs)
  show ?case
  proof (cases "step x acc")
    case None
    with Cons.prems show ?thesis
      by (simp add: chain_then_settle foldl_chain_then_unsettled)
  next
    case (Some r)
    show ?thesis
    proof (cases r)
      case (Inl e)
      with Some Cons.prems show ?thesis
        by (simp add: chain_then_settle foldl_chain_then_unsettled)
    next
      case (Inr d)
      with Some Cons.prems show ?thesis
        by (simp add: chain_then_settle Cons.IH [where acc = d])
    qed
  qed
qed

lemma promiseChain_settle:
  "promiseChain hb ha xs (settle step) r =
     \<lparr>doneN = pipeline_done step r xs, chain = pipeline_result step r xs,
      effects = pipeline_trace hb ha step (length xs) 0 r xs\<rparr>"
  by (simp add: promiseChain_def foldl_chain_then_settle)

lemma step_calls_append: "step_calls (es @ fs) = step_calls es @ step_calls fs"
  by (induction es rule: step_calls.induct) auto
lemma before_events_append: "before_events (es @ fs) = before_events es @ before_events fs"
  by (induction es rule: before_events.induct) auto
lemma after_events_append: "after_events (es @ fs) = after_events es @ after_events fs"
  by (induction es rule: after_events.induct) auto

lemma step_calls_pipeline_trace:
  "step_calls (pipeline_trace hb ha step len k acc xs) = pipeline_calls step acc xs"
  by (induction xs arbitrary: k acc)
     (auto simp: step_calls_append split: option.splits sum.splits)

lemma before_events_pipeline_trace:
  "before_events (pipeline_trace True ha step len k acc xs) =
     map (progress_of len) (enumerate k (pipeline_calls step acc xs))"
  by (induction xs arbitrary: k acc)
     (auto simp: before_events_append progress_of_def split: option.splits sum.splits)

lemma after_events_pipeline_trace:
  "after_events (pipeline_trace hb True step len k acc xs) =
     map (progress_of len) (enumerate (Suc k) (pipeline_resolved step acc xs))"
  by (induction xs arbitrary: k acc)
     (auto simp: after_events_append progress_of_def split: option.splits sum.splits)

lemma length_pipeline_resolved:
  "length (pipeline_resolved step acc xs) = pipeline_done step acc xs"
  by (induction xs arbitrary: acc) (auto split: option.splits sum.splits)

lemma pipeline_resolved_prefix: "prefix (map fst (pipeline_resolved step acc xs)) xs"
  by (induction xs arbitrary: acc) (auto split: option.splits sum.splits)

lemma pipeline_calls_length:
  "length (pipeline_calls step acc xs) =
     (case pipeline_result step acc xs of Fulfilled a \<Rightarrow> pipeline_done step acc xs
      | _ \<Rightarrow> Suc (pipeline_done step acc xs))"
  by (induction xs arbitrary: acc) (auto split: option.splits sum.splits promise.splits)

lemma pipeline_calls_prefix: "prefix (map fst (pipeline_calls step acc xs)) xs"
  by (induction xs arbitrary: acc) (auto split: option.splits sum.splits)

lemma pipeline_result_append:
  "pipeline_result step acc xs = Fulfilled a \<Longrightarrow>
   pipeline_result step acc (xs @ ys) = pipeline_result step a ys"
  by (induction xs arbitrary: acc) (auto split: option.splits sum.splits)

lemma pipeline_calls_append:
  "pipeline_result step acc xs = Fulfilled a \<Longrightarrow>
   pipeline_calls step acc (xs @ ys) = pipeline_calls step acc xs @ pipeline_calls step a ys"
  by (induction xs arbitrary: acc) (auto split: option.splits sum.splits)

lemma pipeline_calls_fulfilled:
  "pipeline_result step acc xs = Fulfilled a \<Longrightarrow> map fst (pipeline_calls step acc xs) = xs"
  by (induction xs arbitrary: acc) (auto split: option.splits sum.splits)

lemma pipeline_result_snoc:
  "pipeline_result (\<lambda>x acc. Some (Inr (acc @ [x]))) acc xs = Fulfilled (acc @ xs)"
  by (induction xs arbitrary: acc) auto


lemma promiseChain_calls:
  "step_calls (effects (promiseChain hb ha xs (settle step) r)) = pipeline_calls step r xs"
  by (simp add: promiseChain_settle step_calls_pipeline_trace)

lemma promiseChain_chain:
  "chain (promiseChain hb ha xs (settle step) r) = pipeline_result step r xs"
  by (simp add: promiseChain_settle)

text \<open>
  Claim C10. With an empty item list \<^verbatim>\<open>promiseChain\<close> is fulfilled with the initial
  accumulator itself; the trace is empty, so the callback was not called and no before or
  after progress event was fired, whatever the callback and whether or not handlers are
  registered.
\<close>

theorem promiseChain_empty:
  "promiseChain hb ha [] callback r = \<lparr>doneN = 0, chain = Fulfilled r, effects = []\<rparr>"
  by (simp add: promiseChain_def)

text \<open>
  Claim C5. For every item list and every step (a function returning a promise of the
  new accumulator), the calls of the step are those of the sequential run: they follow
  the list order, each call after the first receives the value the call before it
  resolved to, and the resulting promise is that of the sequential run. With the step
  that appends its item the promise is fulfilled with the input list. When the run on a
  prefix \<open>xs\<close> is fulfilled and the step rejects the next item \<open>y\<close> with a reason, the
  promise is rejected with that reason and the step was called on \<open>xs\<close> and \<open>y\<close> only.
\<close>

theorem promiseChain_sequential_fail_fast:
  fixes step :: "'i \<Rightarrow> 'a \<Rightarrow> ('e + 'a) option" and list :: "'i list"
  shows
    "step_calls (effects (promiseChain hb ha list (settle step) r)) = pipeline_calls step r list
     \<and> prefix (map fst (step_calls (effects (promiseChain hb ha list (settle step) r)))) list
     \<and> chain (promiseChain hb ha list (settle step) r) = pipeline_result step r list
     \<and> chain (promiseChain hb ha list (settle (\<lambda>x acc. Some (Inr (acc @ [x])))) []) = Fulfilled list
     \<and> map fst (step_calls (effects
           (promiseChain hb ha list (settle (\<lambda>x acc. Some (Inr (acc @ [x])))) []))) = list
     \<and> (\<forall>xs y ys a e.
            list = xs @ y # ys
            \<and> chain (promiseChain hb ha xs (settle step) r) = Fulfilled a
            \<and> step y a = Some (Inl e)
          \<longrightarrow> chain (promiseChain hb ha list (settle step) r) = Rejected e
            \<and> map fst (step_calls (effects (promiseChain hb ha list (settle step) r)))
                = xs @ [y])"
proof (intro conjI allI impI)
  show "step_calls (effects (promiseChain hb ha list (settle step) r)) = pipeline_calls step r list"
    by (rule promiseChain_calls)
  show "prefix (map fst (step_calls (effects (promiseChain hb ha list (settle step) r)))) list"
    by (simp add: promiseChain_calls pipeline_calls_prefix)
  show "chain (promiseChain hb ha list (settle step) r) = pipeline_result step r list"
    by (rule promiseChain_chain)
  show "chain (promiseChain hb ha list (settle (\<lambda>x acc. Some (Inr (acc @ [x])))) []) = Fulfilled list"
    by (simp add: promiseChain_chain pipeline_result_snoc)
  show "map fst (step_calls (effects
           (promiseChain hb ha list (settle (\<lambda>x acc. Some (Inr (acc @ [x])))) []))) = list"
    by (simp add: promiseChain_calls pipeline_calls_fulfilled [OF pipeline_result_snoc])
next
  fix xs y ys a e
  assume h: "list = xs @ y # ys
            \<and> chain (promiseChain hb ha xs (settle step) r) = Fulfilled a
            \<and> step y a = Some (Inl e)"
  then have pre: "pipeline_result step r xs = Fulfilled a"
    by (simp add: promiseChain_chain)
  from h have rej: "step y a = Some (Inl e)" and l: "list = xs @ y # ys"
    by simp_all
  show "chain (promiseChain hb ha list (settle step) r) = Rejected e"
    by (simp add: promiseChain_chain l pipeline_result_append [OF pre] rej)
  show "map fst (step_calls (effects (promiseChain hb ha list (settle step) r))) = xs @ [y]"
    by (simp add: promiseChain_calls l pipeline_calls_append [OF pre] rej
          pipeline_calls_fulfilled [OF pre])
qed

theorem promiseChain_sequential_fail_fast_witness:
  "chain (promiseChain True True [1, 2, 3 :: nat]
      (settle (\<lambda>x acc. if x = 2 then Some (Inl ''failed'') else Some (Inr (acc @ [x])))) [])
     = Rejected ''failed''
   \<and> map fst (step_calls (effects (promiseChain True True [1, 2, 3 :: nat]
      (settle (\<lambda>x acc. if x = 2 then Some (Inl ''failed'') else Some (Inr (acc @ [x])))) [])))
     = [1, 2]"
proof -
  let ?step = "\<lambda>(x::nat) (acc::nat list). if x = 2 then Some (Inl ''failed'') else Some (Inr (acc @ [x]))"
  have e1: "chain (promiseChain True True [1] (settle ?step) []) = Fulfilled [1]"
    by (simp add: promiseChain_def chain_then_def settle_def emit_def on_resolve_def
          resolve_def reject_def)
  have pre: "[1, 2, 3 :: nat] = [1] @ 2 # [3]
      \<and> chain (promiseChain True True [1] (settle ?step) []) = Fulfilled [1]
      \<and> ?step 2 [1] = Some (Inl ''failed'')"
    using e1 by simp
  have "\<forall>xs y ys a e.
            [1, 2, 3 :: nat] = xs @ y # ys
            \<and> chain (promiseChain True True xs (settle ?step) []) = Fulfilled a
            \<and> ?step y a = Some (Inl e)
          \<longrightarrow> chain (promiseChain True True [1, 2, 3] (settle ?step) []) = Rejected e
            \<and> map fst (step_calls (effects (promiseChain True True [1, 2, 3] (settle ?step) [])))
                = xs @ [y]"
    using promiseChain_sequential_fail_fast [of True True "[1, 2, 3]" ?step "[]"] by blast
  then have "[1, 2, 3 :: nat] = [1] @ 2 # [3]
            \<and> chain (promiseChain True True [1] (settle ?step) []) = Fulfilled [1]
            \<and> ?step 2 [1] = Some (Inl ''failed'')
          \<longrightarrow> chain (promiseChain True True [1, 2, 3] (settle ?step) []) = Rejected ''failed''
            \<and> map fst (step_calls (effects (promiseChain True True [1, 2, 3] (settle ?step) [])))
                = [1] @ [2]"
    by (elim allE)
  with pre show ?thesis by simp
qed

text \<open>
  Claim C6. With both progress handlers registered, the trace of a run is: for each item
  in turn a before event with the item, the accumulator, the number of steps done so far
  and the list length, then the call of the step, then, when the step resolves, an after
  event with the item, the step's result, the incremented count and the list length. So
  the before events are numbered from 0 along the calls, the after events are numbered
  from 1 along the steps that resolved, the counter ends at the number of after events,
  and a run that is not fulfilled has one before event more than after events: its last
  step fired no after event.
\<close>

theorem promiseChain_progress_events:
  fixes step :: "'i \<Rightarrow> 'a \<Rightarrow> ('e + 'a) option" and list :: "'i list"
  shows
    "effects (promiseChain True True list (settle step) r)
       = pipeline_trace True True step (length list) 0 r list
     \<and> before_events (effects (promiseChain True True list (settle step) r))
       = map (progress_of (length list))
           (enumerate 0 (step_calls (effects (promiseChain True True list (settle step) r))))
     \<and> after_events (effects (promiseChain True True list (settle step) r))
       = map (progress_of (length list)) (enumerate 1 (pipeline_resolved step r list))
     \<and> doneN (promiseChain True True list (settle step) r)
       = length (after_events (effects (promiseChain True True list (settle step) r)))
     \<and> length (before_events (effects (promiseChain True True list (settle step) r)))
       = (case chain (promiseChain True True list (settle step) r) of
            Fulfilled a \<Rightarrow> length (after_events (effects (promiseChain True True list (settle step) r)))
          | _ \<Rightarrow> Suc (length (after_events (effects (promiseChain True True list (settle step) r)))))"
  by (simp add: promiseChain_settle before_events_pipeline_trace after_events_pipeline_trace
        step_calls_pipeline_trace length_pipeline_resolved pipeline_calls_length
        split: promise.splits)

section \<open>The content cache answers a fetched page without a second fetch\<close>

lemma slice_prefix: "0 \<le> a \<Longrightarrow> slice xs 0 a = take (nat a) xs"
  by (cases "nat a \<le> length xs") (simp_all add: slice_def slice_index_def min_def)

lemma slice_from_nonneg: "0 \<le> b \<Longrightarrow> slice_from xs b = drop (nat b) xs"
  by (cases "nat b \<le> length xs") (simp_all add: slice_from_def slice_index_def min_def)

lemma slice_nonneg:
  "0 \<le> a \<Longrightarrow> a \<le> b \<Longrightarrow> slice xs a b = take (nat b - nat a) (drop (nat a) xs)"
  by (cases "nat a < length xs") (simp_all add: slice_def slice_index_def min_def Let_def)

lemma page_range:
  assumes "1 \<le> page" and "0 < pageSize"
  shows "0 \<le> (page - 1) * pageSize"
    and "(page - 1) * pageSize \<le> page * pageSize"
    and "nat (page * pageSize) = nat ((page - 1) * pageSize) + nat pageSize"
proof -
  from assms show a: "0 \<le> (page - 1) * pageSize" by simp
  have e: "page * pageSize = (page - 1) * pageSize + pageSize"
    by (simp add: algebra_simps)
  with assms show "(page - 1) * pageSize \<le> page * pageSize" by simp
  from a assms e show "nat (page * pageSize) = nat ((page - 1) * pageSize) + nat pageSize"
    by (simp add: nat_add_distrib)
qed

text \<open>The merged array, on natural numbers.\<close>

lemma merged_length:
  assumes "length old = c" and "length new = min P (c - A)"
  shows "length (take A old @ new @ drop (A + P) old) = c"
  using assms by (simp add: min_def)

lemma merged_before:
  assumes "length old = c" and "i < A" and "i < c"
  shows "(take A old @ new @ drop (A + P) old) ! i = old ! i"
  using assms by (simp add: nth_append)

lemma merged_inside:
  assumes "length old = c" and "length new = min P (c - A)" and "A \<le> i" and "i < A + P" and "i < c"
  shows "(take A old @ new @ drop (A + P) old) ! i = new ! (i - A)"
proof -
  from assms have 1: "length (take A old) = A" by simp
  from assms have 2: "i - A < length new" by arith
  have "(take A old @ new @ drop (A + P) old) ! i = (new @ drop (A + P) old) ! (i - A)"
    using 1 assms(3) by (simp add: nth_append)
  also have "\<dots> = new ! (i - A)"
    using 2 by (simp add: nth_append)
  finally show ?thesis .
qed

lemma merged_after:
  assumes "length old = c" and "length new = min P (c - A)" and "A + P \<le> i" and "i < c"
  shows "(take A old @ new @ drop (A + P) old) ! i = old ! i"
proof -
  from assms have 1: "length (take A old) = A" by simp
  from assms have 2: "length new = P" by arith
  have "(take A old @ new @ drop (A + P) old) ! i = (new @ drop (A + P) old) ! (i - A)"
    using 1 assms(3) by (simp add: nth_append)
  also have "\<dots> = drop (A + P) old ! (i - A - P)"
  proof -
    from 2 assms(3) have "\<not> i - A < length new" by arith
    with 2 show ?thesis by (simp add: nth_append)
  qed
  also have "\<dots> = old ! i"
    using assms(1,3,4) by simp
  finally show ?thesis .
qed

lemma merged_page:
  assumes "length old = c" and "length new = min P (c - A)"
  shows "take P (drop A (take A old @ new @ drop (A + P) old)) = new"
proof (cases "A \<le> c")
  case True
  with assms have 1: "length (take A old) = A" by simp
  show ?thesis
  proof (cases "P \<le> c - A")
    case True
    with assms have "length new = P" by simp
    with 1 show ?thesis by simp
  next
    case False
    with assms have 2: "length new \<le> P" by arith
    from False assms have 3: "drop (A + P) old = []" by simp
    from 1 2 3 show ?thesis by simp
  qed
next
  case False
  with assms have "new = []" and "drop (A + P) old = []" and "take A old = old" by simp_all
  with assms False show ?thesis by simp
qed

lemma merge_ids_page:
  assumes "1 \<le> page" and "0 < pageSize"
  shows "merge_ids existing resp page pageSize =
           take (nat ((page - 1) * pageSize))
             (case existing of Some ec \<Rightarrow> objectIds ec | None \<Rightarrow> replicate (loaded_count resp) None)
           @ map Some (objects resp)
           @ drop (nat ((page - 1) * pageSize) + nat pageSize)
               (case existing of Some ec \<Rightarrow> objectIds ec | None \<Rightarrow> replicate (loaded_count resp) None)"
  using page_range [OF assms]
  by (simp add: merge_ids_def oldIds_def slice_prefix slice_from_nonneg Let_def)

lemma slice_page:
  assumes "1 \<le> page" and "0 < pageSize"
  shows "slice xs ((page - 1) * pageSize) (page * pageSize) =
           take (nat pageSize) (drop (nat ((page - 1) * pageSize)) xs)"
  using page_range [OF assms] by (simp add: slice_nonneg)

lemma getContentObjects_hit:
  assumes "contents this (or_null searchQuery) = Some ec"
    and "\<not> (0 < count ec \<and> int (count ec) \<le> (page - 1) * pageSize)"
    and "list_all (\<lambda>i. i \<noteq> None) (slice (objectIds ec) ((page - 1) * pageSize) (page * pageSize))"
  shows "getContentObjects meta loadFiltered page pageSize searchQuery this =
           (Inr \<lparr>count = count ec,
                 objectIds = slice (objectIds ec) ((page - 1) * pageSize) (page * pageSize)\<rparr>,
            this, [])"
  using assms by (simp add: getContentObjects_def from_cache_def Let_def)

lemma getContentObjects_invalid:
  assumes "contents this (or_null searchQuery) = Some ec"
    and "0 < count ec" and "int (count ec) \<le> (page - 1) * pageSize"
  shows "getContentObjects meta loadFiltered page pageSize searchQuery this =
           (Inl InvalidPage, this, [])"
  using assms by (simp add: getContentObjects_def from_cache_def Let_def)

lemma getContentObjects_fetch:
  assumes "from_cache (contents this (or_null searchQuery)) page pageSize = None"
    and "loadFiltered (contents_request meta this (or_null searchQuery) page pageSize) = Inr resp"
  shows "getContentObjects meta loadFiltered page pageSize searchQuery this =
           (Inr \<lparr>count = loaded_count resp, objectIds = map Some (objects resp)\<rparr>,
            this\<lparr>contents := (contents this)(or_null searchQuery \<mapsto>
               \<lparr>count = loaded_count resp,
                objectIds = merge_ids (contents this (or_null searchQuery)) resp page pageSize\<rparr>)\<rparr>,
            [contents_request meta this (or_null searchQuery) page pageSize])"
  using assms by (simp add: getContentObjects_def Let_def)

lemma length_oldIds:
  assumes "case existing of None \<Rightarrow> True
           | Some ec \<Rightarrow> length (objectIds ec) = count ec \<and> loaded_count resp = count ec"
  shows "length (oldIds existing resp) = loaded_count resp"
  using assms by (cases existing) (simp_all add: oldIds_def)

lemma merge_ids_old:
  assumes "1 \<le> page" and "0 < pageSize"
  shows "merge_ids existing resp page pageSize =
           take (nat ((page - 1) * pageSize)) (oldIds existing resp)
           @ map Some (objects resp)
           @ drop (nat ((page - 1) * pageSize) + nat pageSize) (oldIds existing resp)"
  using merge_ids_page [OF assms] by (simp add: oldIds_def)

lemma second_call:
  assumes pg: "1 \<le> page" "0 < pageSize"
    and miss: "from_cache (contents this (or_null searchQuery)) page pageSize = None"
    and inv: "case contents this (or_null searchQuery) of None \<Rightarrow> True
              | Some ec \<Rightarrow> length (objectIds ec) = count ec \<and> loaded_count resp = count ec"
    and resp: "loadFiltered (contents_request meta this (or_null searchQuery) page pageSize) = Inr resp"
    and full: "length (objects resp) =
                 min (nat pageSize) (loaded_count resp - nat ((page - 1) * pageSize))"
    and first: "getContentObjects meta loadFiltered page pageSize searchQuery this = (r1, this1, reqs1)"
  shows "reqs1 = [contents_request meta this (or_null searchQuery) page pageSize]"
    and "getContentObjects meta loadFiltered' page pageSize searchQuery this1 =
           (if 0 < loaded_count resp \<and> int (loaded_count resp) \<le> (page - 1) * pageSize
            then Inl InvalidPage else r1, this1, [])"
proof -
  let ?key = "or_null searchQuery"
  let ?A = "nat ((page - 1) * pageSize)"
  let ?P = "nat pageSize"
  let ?old = "oldIds (contents this ?key) resp"
  let ?new = "map Some (objects resp)"
  let ?all = "take ?A ?old @ ?new @ drop (?A + ?P) ?old"
  let ?ec = "\<lparr>count = loaded_count resp, objectIds = ?all\<rparr>"
  from getContentObjects_fetch [of this searchQuery page pageSize loadFiltered meta resp, OF miss resp] first
  have r1: "r1 = Inr \<lparr>count = loaded_count resp, objectIds = ?new\<rparr>"
    and t1: "this1 = this\<lparr>contents := (contents this)(?key \<mapsto> ?ec)\<rparr>"
    and q1: "reqs1 = [contents_request meta this ?key page pageSize]"
    by (simp_all add: merge_ids_old [OF pg])
  from q1 show "reqs1 = [contents_request meta this ?key page pageSize]" .
  have c1: "contents this1 ?key = Some ?ec"
    by (simp add: t1)
  have len: "length ?old = loaded_count resp"
    by (rule length_oldIds [OF inv])
  have lnew: "length ?new = min ?P (loaded_count resp - ?A)"
    using full by simp
  have page_ids: "slice ?all ((page - 1) * pageSize) (page * pageSize) = ?new"
    by (simp only: slice_page [OF pg] merged_page [OF len lnew])
  show "getContentObjects meta loadFiltered' page pageSize searchQuery this1 =
           (if 0 < loaded_count resp \<and> int (loaded_count resp) \<le> (page - 1) * pageSize
            then Inl InvalidPage else r1, this1, [])"
  proof (cases "0 < loaded_count resp \<and> int (loaded_count resp) \<le> (page - 1) * pageSize")
    case True
    then show ?thesis
      using getContentObjects_invalid [OF c1, of page pageSize meta loadFiltered'] by simp
  next
    case False
    have known: "list_all (\<lambda>i. i \<noteq> None)
                   (slice (objectIds ?ec) ((page - 1) * pageSize) (page * pageSize))"
      by (simp add: page_ids list_all_iff)
    from False have ok: "\<not> (0 < count ?ec \<and> int (count ?ec) \<le> (page - 1) * pageSize)"
      by simp
    have "getContentObjects meta loadFiltered' page pageSize searchQuery this1 =
            (Inr \<lparr>count = count ?ec,
                  objectIds = slice (objectIds ?ec) ((page - 1) * pageSize) (page * pageSize)\<rparr>,
             this1, [])"
      by (rule getContentObjects_hit [OF c1 ok known])
    with False show ?thesis
      by (simp add: page_ids r1)
  qed
qed

lemma drop_nth: "drop n xs = map (\<lambda>i. xs ! i) [n ..< length xs]"
proof -
  have "drop n (map (\<lambda>i. xs ! i) [0 ..< length xs]) = map (\<lambda>i. xs ! i) [n ..< length xs]"
    by (simp add: drop_map)
  then show ?thesis by (simp add: map_nth)
qed

lemma merged_nth:
  assumes "length old = c" and "length new = min P (c - A)" and "i < c"
  shows "(take A old @ new @ drop (A + P) old) ! i =
           (if A \<le> i \<and> i < A + P then new ! (i - A) else old ! i)"
proof (cases "i < A")
  case True
  then show ?thesis using merged_before [OF assms(1) True assms(3)] by simp
next
  case False
  show ?thesis
  proof (cases "i < A + P")
    case True
    with False show ?thesis
      using merged_inside [OF assms(1,2) _ True assms(3)] by simp
  next
    case False
    then show ?thesis
      using merged_after [OF assms(1,2) _ assms(3)] by simp
  qed
qed

text \<open>
  Claim C1, as stated, at a page that starts beyond a positive cached count: the three
  cached slots are known and the slice of page 2 (of size 10) is empty, so every id slot
  in the page range is known; the call fails with the invalid-page error instead of
  returning the cached slice.
\<close>

theorem getContentObjects_cached_window_counterexample:
  "contents \<lparr>model_id = 7, roots = Map.empty,
             contents = [None \<mapsto> \<lparr>count = 3, objectIds = [Some 11, Some 12, Some 13]\<rparr>]\<rparr>
      (or_null None) = Some \<lparr>count = 3, objectIds = [Some 11, Some 12, Some 13]\<rparr>
   \<and> list_all (\<lambda>i. i \<noteq> None) (slice [Some 11, Some 12, Some (13::int)] ((2 - 1) * 10) (2 * 10))
   \<and> fst (getContentObjects Album_rootModelMeta (\<lambda>r. Inl NotFound) 2 10 None
        \<lparr>model_id = 7, roots = Map.empty,
         contents = [None \<mapsto> \<lparr>count = 3, objectIds = [Some 11, Some 12, Some 13]\<rparr>]\<rparr>)
       = Inl InvalidPage
   \<and> fst (getContentObjects Album_rootModelMeta (\<lambda>r. Inl NotFound) 2 10 None
        \<lparr>model_id = 7, roots = Map.empty,
         contents = [None \<mapsto> \<lparr>count = 3, objectIds = [Some 11, Some 12, Some 13]\<rparr>]\<rparr>)
       \<noteq> Inr \<lparr>count = 3,
               objectIds = slice [Some 11, Some 12, Some 13] ((2 - 1) * 10) (2 * 10)\<rparr>"
  by (simp add: getContentObjects_def from_cache_def or_null_def slice_def slice_index_def)

text \<open>
  Claim C1, amended. When a cached entry exists for the search key, the page does not
  start at or beyond a positive cached count, and every id slot of the page's slice is
  known, \<^verbatim>\<open>getContentObjects\<close> returns the cached count and that slice, leaves the
  instance unchanged and issues no remote call. Two calls with the same arguments
  issue exactly one remote call under these conditions: the page number is at least 1
  and the page size positive; the first call is not settled by the cache; the stored id
  array, if there is one, is as long as its count; the remote store answers the first
  call, with the stored count when there is one, and with
  \<open>min pageSize (count - (page - 1) * pageSize)\<close> ids (none when the page starts
  beyond the count). Then the first call issues the one remote call, and the second
  issues none and leaves the instance unchanged: it returns the result of the first, or
  the invalid-page error when the page starts at or beyond the positive count.
\<close>

theorem getContentObjects_cached_window:
  "(\<forall>ec. contents this (or_null searchQuery) = Some ec
        \<and> \<not> (0 < count ec \<and> int (count ec) \<le> (page - 1) * pageSize)
        \<and> list_all (\<lambda>i. i \<noteq> None)
              (slice (objectIds ec) ((page - 1) * pageSize) (page * pageSize))
      \<longrightarrow> getContentObjects meta loadFiltered page pageSize searchQuery this
            = (Inr \<lparr>count = count ec,
                    objectIds = slice (objectIds ec) ((page - 1) * pageSize) (page * pageSize)\<rparr>,
               this, []))
   \<and> (\<forall>resp r1 this1 reqs1.
        1 \<le> page \<and> 0 < pageSize
        \<and> from_cache (contents this (or_null searchQuery)) page pageSize = None
        \<and> (case contents this (or_null searchQuery) of
              None \<Rightarrow> True
            | Some ec \<Rightarrow> length (objectIds ec) = count ec \<and> loaded_count resp = count ec)
        \<and> loadFiltered (contents_request meta this (or_null searchQuery) page pageSize) = Inr resp
        \<and> length (objects resp)
              = min (nat pageSize) (loaded_count resp - nat ((page - 1) * pageSize))
        \<and> getContentObjects meta loadFiltered page pageSize searchQuery this = (r1, this1, reqs1)
      \<longrightarrow> reqs1 = [contents_request meta this (or_null searchQuery) page pageSize]
          \<and> getContentObjects meta loadFiltered' page pageSize searchQuery this1
              = (if 0 < loaded_count resp \<and> int (loaded_count resp) \<le> (page - 1) * pageSize
                 then Inl InvalidPage else r1, this1, []))"
proof (intro conjI allI impI)
  fix ec
  assume "contents this (or_null searchQuery) = Some ec
        \<and> \<not> (0 < count ec \<and> int (count ec) \<le> (page - 1) * pageSize)
        \<and> list_all (\<lambda>i. i \<noteq> None)
              (slice (objectIds ec) ((page - 1) * pageSize) (page * pageSize))"
  then show "getContentObjects meta loadFiltered page pageSize searchQuery this
            = (Inr \<lparr>count = count ec,
                    objectIds = slice (objectIds ec) ((page - 1) * pageSize) (page * pageSize)\<rparr>,
               this, [])"
    by (intro getContentObjects_hit) simp_all
next
  fix resp r1 this1 reqs1
  assume h: "1 \<le> page \<and> 0 < pageSize
        \<and> from_cache (contents this (or_null searchQuery)) page pageSize = None
        \<and> (case contents this (or_null searchQuery) of
              None \<Rightarrow> True
            | Some ec \<Rightarrow> length (objectIds ec) = count ec \<and> loaded_count resp = count ec)
        \<and> loadFiltered (contents_request meta this (or_null searchQuery) page pageSize) = Inr resp
        \<and> length (objects resp)
              = min (nat pageSize) (loaded_count resp - nat ((page - 1) * pageSize))
        \<and> getContentObjects meta loadFiltered page pageSize searchQuery this = (r1, this1, reqs1)"
  then have pg: "1 \<le> page" "0 < pageSize"
    and miss: "from_cache (contents this (or_null searchQuery)) page pageSize = None"
    and inv: "case contents this (or_null searchQuery) of None \<Rightarrow> True
              | Some ec \<Rightarrow> length (objectIds ec) = count ec \<and> loaded_count resp = count ec"
    and resp: "loadFiltered (contents_request meta this (or_null searchQuery) page pageSize) = Inr resp"
    and full: "length (objects resp) =
                 min (nat pageSize) (loaded_count resp - nat ((page - 1) * pageSize))"
    and first: "getContentObjects meta loadFiltered page pageSize searchQuery this = (r1, this1, reqs1)"
    by simp_all
  show "reqs1 = [contents_request meta this (or_null searchQuery) page pageSize]"
    by (rule second_call(1) [OF pg miss inv resp full first])
  show "getContentObjects meta loadFiltered' page pageSize searchQuery this1
              = (if 0 < loaded_count resp \<and> int (loaded_count resp) \<le> (page - 1) * pageSize
                 then Inl InvalidPage else r1, this1, [])"
    by (rule second_call(2) [OF pg miss inv resp full first])
qed

theorem getContentObjects_cached_window_witness:
  "snd (snd (getContentObjects Album_rootModelMeta (\<lambda>r. Inr (Loaded 5 [13, 14])) 2 2 None
       \<lparr>model_id = 7, roots = Map.empty, contents = Map.empty\<rparr>))
     = [\<lparr>modelClass = ''FileObject'', filterParam = ''album'', filterValue = 7,
         search = None, paging = Some (2, 2)\<rparr>]
   \<and> getContentObjects Album_rootModelMeta (\<lambda>r. Inl NotFound) 2 2 None
       (fst (snd (getContentObjects Album_rootModelMeta (\<lambda>r. Inr (Loaded 5 [13, 14])) 2 2 None
          \<lparr>model_id = 7, roots = Map.empty, contents = Map.empty\<rparr>)))
     = (Inr \<lparr>count = 5, objectIds = [Some 13, Some 14]\<rparr>,
        fst (snd (getContentObjects Album_rootModelMeta (\<lambda>r. Inr (Loaded 5 [13, 14])) 2 2 None
          \<lparr>model_id = 7, roots = Map.empty, contents = Map.empty\<rparr>)),
        [])
   \<and> getContentObjects Album_rootModelMeta (\<lambda>r. Inl NotFound) 1 2 None
       \<lparr>model_id = 7, roots = Map.empty,
        contents = [None \<mapsto> \<lparr>count = 3, objectIds = [Some 11, Some 12, None]\<rparr>]\<rparr>
     = (Inr \<lparr>count = 3, objectIds = [Some 11, Some 12]\<rparr>,
        \<lparr>model_id = 7, roots = Map.empty,
         contents = [None \<mapsto> \<lparr>count = 3, objectIds = [Some 11, Some 12, None]\<rparr>]\<rparr>,
        [])"
proof -
  let ?ec = "\<lparr>count = 3, objectIds = [Some 11, Some 12, None]\<rparr>"
  let ?S2 = "\<lparr>model_id = 7, roots = Map.empty, contents = [None \<mapsto> ?ec]\<rparr>"
  have h1: "contents ?S2 (or_null None) = Some ?ec
        \<and> \<not> (0 < count ?ec \<and> int (count ?ec) \<le> (1 - 1) * 2)
        \<and> list_all (\<lambda>i. i \<noteq> None) (slice (objectIds ?ec) ((1 - 1) * 2) (1 * 2))"
    by (simp add: or_null_def slice_def slice_index_def)
  from getContentObjects_cached_window
         [where this = ?S2 and searchQuery = None and page = 1 and pageSize = 2
            and meta = Album_rootModelMeta and loadFiltered = "\<lambda>r. Inl NotFound",
          THEN conjunct1, rule_format, OF h1]
  have hit: "getContentObjects Album_rootModelMeta (\<lambda>r. Inl NotFound) 1 2 None ?S2
      = (Inr \<lparr>count = 3, objectIds = [Some 11, Some 12]\<rparr>, ?S2, [])"
    by (simp add: slice_def slice_index_def)
  let ?S = "\<lparr>model_id = 7, roots = Map.empty, contents = Map.empty\<rparr>"
  let ?lf = "\<lambda>r::request. (Inr (Loaded 5 [13, 14]) :: error + loaded)"
  let ?run = "getContentObjects Album_rootModelMeta ?lf 2 2 None ?S"
  have r1: "fst ?run = Inr \<lparr>count = 5, objectIds = [Some 13, Some 14]\<rparr>"
    by (simp add: getContentObjects_def from_cache_def or_null_def)
  have h: "(1::int) \<le> 2 \<and> (0::int) < 2
        \<and> from_cache (contents ?S (or_null None)) 2 2 = None
        \<and> (case contents ?S (or_null None) of
              None \<Rightarrow> True
            | Some ec \<Rightarrow> length (objectIds ec) = count ec \<and> loaded_count (Loaded 5 [13, 14]) = count ec)
        \<and> ?lf (contents_request Album_rootModelMeta ?S (or_null None) 2 2) = Inr (Loaded 5 [13, 14])
        \<and> length (objects (Loaded 5 [13, 14]))
              = min (nat 2) (loaded_count (Loaded 5 [13, 14]) - nat ((2 - 1) * 2))
        \<and> ?run = (fst ?run, fst (snd ?run), snd (snd ?run))"
    by (simp add: from_cache_def or_null_def)
  have rq: "contents_request Album_rootModelMeta ?S (or_null None) 2 2
      = \<lparr>modelClass = ''FileObject'', filterParam = ''album'', filterValue = 7,
         search = None, paging = Some (2, 2)\<rparr>"
    by (simp add: contents_request_def Album_rootModelMeta_def or_null_def)
  from getContentObjects_cached_window
         [where this = ?S and searchQuery = None and page = 2 and pageSize = 2
            and meta = Album_rootModelMeta and loadFiltered = ?lf
            and loadFiltered' = "\<lambda>r. Inl NotFound",
          THEN conjunct2, rule_format, OF h]
  have "snd (snd ?run) = [contents_request Album_rootModelMeta ?S (or_null None) 2 2]"
    and "getContentObjects Album_rootModelMeta (\<lambda>r. Inl NotFound) 2 2 None (fst (snd ?run))
           = (fst ?run, fst (snd ?run), [])"
    by simp_all
  with hit show ?thesis
    by (simp only: rq r1 simp_thms)
qed

text \<open>
  Claim C2, as stated, at the cached count 0: page 1 starts at index 0, which is not
  below the count, yet the call returns the empty page and no error.
\<close>

theorem getContentObjects_invalid_page_counterexample:
  "contents \<lparr>model_id = 7, roots = Map.empty,
             contents = [None \<mapsto> \<lparr>count = 0, objectIds = []\<rparr>]\<rparr>
      (or_null None) = Some \<lparr>count = 0, objectIds = []\<rparr>
   \<and> int (count \<lparr>count = 0, objectIds = []\<rparr>) \<le> (1 - 1) * 10
   \<and> getContentObjects Album_rootModelMeta (\<lambda>r. Inl NotFound) 1 10 None
        \<lparr>model_id = 7, roots = Map.empty,
         contents = [None \<mapsto> \<lparr>count = 0, objectIds = []\<rparr>]\<rparr>
       = (Inr \<lparr>count = 0, objectIds = []\<rparr>,
          \<lparr>model_id = 7, roots = Map.empty,
           contents = [None \<mapsto> \<lparr>count = 0, objectIds = []\<rparr>]\<rparr>, [])
   \<and> fst (getContentObjects Album_rootModelMeta (\<lambda>r. Inl NotFound) 1 10 None
        \<lparr>model_id = 7, roots = Map.empty,
         contents = [None \<mapsto> \<lparr>count = 0, objectIds = []\<rparr>]\<rparr>)
       \<noteq> Inl InvalidPage"
  by (simp add: getContentObjects_def from_cache_def or_null_def slice_def slice_index_def)

text \<open>
  Claim C2, amended. For a cached entry with a positive count and a page with
  \<open>(page - 1) * pageSize \<ge> count\<close>, \<^verbatim>\<open>getContentObjects\<close> fails with the error whose
  detail is ``Invalid page.'', leaves the instance unchanged and issues no remote call.
\<close>

theorem getContentObjects_invalid_page:
  assumes "contents this (or_null searchQuery) = Some ec"
    and "0 < count ec"
    and "int (count ec) \<le> (page - 1) * pageSize"
  shows "getContentObjects meta loadFiltered page pageSize searchQuery this
           = (Inl InvalidPage, this, [])
         \<and> detail InvalidPage = ''Invalid page.''"
  using getContentObjects_invalid [OF assms] by (simp add: InvalidPage_def)

theorem getContentObjects_invalid_page_witness:
  "getContentObjects Album_rootModelMeta (\<lambda>r. Inl NotFound) 4 10 None
        \<lparr>model_id = 7, roots = Map.empty,
         contents = [None \<mapsto> \<lparr>count = 3, objectIds = [Some 11, None, None]\<rparr>]\<rparr>
       = (Inl InvalidPage,
          \<lparr>model_id = 7, roots = Map.empty,
           contents = [None \<mapsto> \<lparr>count = 3, objectIds = [Some 11, None, None]\<rparr>]\<rparr>, [])
   \<and> detail InvalidPage = ''Invalid page.''"
proof -
  let ?ec = "\<lparr>count = 3, objectIds = [Some 11, None, None]\<rparr>"
  let ?S = "\<lparr>model_id = 7, roots = Map.empty, contents = [None \<mapsto> ?ec]\<rparr>"
  have 1: "contents ?S (or_null None) = Some ?ec" by (simp add: or_null_def)
  have 2: "0 < count ?ec" by simp
  have 3: "int (count ?ec) \<le> (4 - 1) * 10" by simp
  from getContentObjects_invalid_page [OF 1 2 3, of Album_rootModelMeta "\<lambda>r. Inl NotFound"]
  show ?thesis by simp
qed

text \<open>
  Claim C3. With a cached entry of count 25 whose 25 slots are all known, page 3 of
  size 10 is the five ids of slots 20 to 24, in order, and page 4 fails with the
  invalid-page error; neither call changes the instance or issues a remote call.
\<close>

theorem getContentObjects_pagination_boundary:
  assumes "contents this (or_null searchQuery) = Some ec"
    and "count ec = 25"
    and "length (objectIds ec) = 25"
    and "list_all (\<lambda>i. i \<noteq> None) (objectIds ec)"
  shows "getContentObjects meta loadFiltered 3 10 searchQuery this
           = (Inr \<lparr>count = 25, objectIds = drop 20 (objectIds ec)\<rparr>, this, [])
         \<and> drop 20 (objectIds ec) = map (\<lambda>i. objectIds ec ! i) [20, 21, 22, 23, 24]
         \<and> getContentObjects meta loadFiltered 4 10 searchQuery this
           = (Inl InvalidPage, this, [])"
proof (intro conjI)
  have s: "slice (objectIds ec) ((3 - 1) * 10) (3 * 10) = drop 20 (objectIds ec)"
    using assms(3) by (simp add: slice_def slice_index_def)
  have "list_all (\<lambda>i. i \<noteq> None) (drop 20 (objectIds ec))"
    using assms(4) by (auto simp: list_all_iff dest: in_set_dropD)
  with s have k: "list_all (\<lambda>i. i \<noteq> None) (slice (objectIds ec) ((3 - 1) * 10) (3 * 10))"
    by simp
  have ok: "\<not> (0 < count ec \<and> int (count ec) \<le> (3 - 1) * 10)"
    using assms(2) by simp
  show "getContentObjects meta loadFiltered 3 10 searchQuery this
           = (Inr \<lparr>count = 25, objectIds = drop 20 (objectIds ec)\<rparr>, this, [])"
    using getContentObjects_hit [OF assms(1) ok k, of meta loadFiltered] s assms(2) by simp
  have "drop 20 (objectIds ec) = map (\<lambda>i. objectIds ec ! i) [20 ..< 25]"
    using assms(3) drop_nth [of 20 "objectIds ec"] by simp
  also have "[20 ..< 25] = [20, 21, 22, 23, 24::nat]"
    by (simp add: upt_rec)
  finally show "drop 20 (objectIds ec) = map (\<lambda>i. objectIds ec ! i) [20, 21, 22, 23, 24]" .
  show "getContentObjects meta loadFiltered 4 10 searchQuery this = (Inl InvalidPage, this, [])"
    using getContentObjects_invalid [OF assms(1), of 4 10 meta loadFiltered] assms(2) by simp
qed

theorem getContentObjects_pagination_boundary_witness:
  "getContentObjects Album_rootModelMeta (\<lambda>r. Inl NotFound) 3 10 None
        \<lparr>model_id = 7, roots = Map.empty,
         contents = [None \<mapsto> \<lparr>count = 25, objectIds = map (\<lambda>i. Some (100 + int i)) [0 ..< 25]\<rparr>]\<rparr>
       = (Inr \<lparr>count = 25, objectIds = drop 20 (map (\<lambda>i. Some (100 + int i)) [0 ..< 25])\<rparr>,
          \<lparr>model_id = 7, roots = Map.empty,
           contents = [None \<mapsto> \<lparr>count = 25, objectIds = map (\<lambda>i. Some (100 + int i)) [0 ..< 25]\<rparr>]\<rparr>, [])
   \<and> getContentObjects Album_rootModelMeta (\<lambda>r. Inl NotFound) 4 10 None
        \<lparr>model_id = 7, roots = Map.empty,
         contents = [None \<mapsto> \<lparr>count = 25, objectIds = map (\<lambda>i. Some (100 + int i)) [0 ..< 25]\<rparr>]\<rparr>
       = (Inl InvalidPage,
          \<lparr>model_id = 7, roots = Map.empty,
           contents = [None \<mapsto> \<lparr>count = 25, objectIds = map (\<lambda>i. Some (100 + int i)) [0 ..< 25]\<rparr>]\<rparr>, [])"
proof -
  let ?ec = "\<lparr>count = 25, objectIds = map (\<lambda>i. Some (100 + int i)) [0 ..< 25]\<rparr>"
  let ?S = "\<lparr>model_id = 7, roots = Map.empty, contents = [None \<mapsto> ?ec]\<rparr>"
  have 1: "contents ?S (or_null None) = Some ?ec" by (simp add: or_null_def)
  have 2: "count ?ec = 25" by simp
  have 3: "length (objectIds ?ec) = 25" by simp
  have 4: "list_all (\<lambda>i. i \<noteq> None) (objectIds ?ec)" by (simp add: list_all_iff)
  from getContentObjects_pagination_boundary [OF 1 2 3 4, of Album_rootModelMeta "\<lambda>r. Inl NotFound"]
  show ?thesis by simp
qed

text \<open>
  Claim C4. When \<^verbatim>\<open>getContentObjects\<close> fetches a page (page number at least 1,
  positive page size) and the remote store answers with the page of a listing of
  \<open>count\<close> items, the stored entry afterwards has that count and an id array of that
  length. Inside the page range \<open>[(page - 1) * pageSize, page * pageSize)\<close> its slots
  hold the fetched ids; every slot outside the range holds what \<^verbatim>\<open>oldIds\<close> held: the
  previous value when an entry with the same count was stored, the unknown marker on
  the first fetch.
\<close>

theorem getContentObjects_merge_invariant:
  assumes pg: "1 \<le> page" "0 < pageSize"
    and miss: "from_cache (contents this (or_null searchQuery)) page pageSize = None"
    and inv: "case contents this (or_null searchQuery) of
           None \<Rightarrow> True
         | Some ec \<Rightarrow> length (objectIds ec) = count ec \<and> loaded_count resp = count ec"
    and resp: "loadFiltered (contents_request meta this (or_null searchQuery) page pageSize) = Inr resp"
    and full: "length (objects resp)
           = min (nat pageSize) (loaded_count resp - nat ((page - 1) * pageSize))"
    and call: "getContentObjects meta loadFiltered page pageSize searchQuery this = (r, this', reqs)"
  shows "\<exists>ec'. contents this' (or_null searchQuery) = Some ec'
           \<and> count ec' = loaded_count resp
           \<and> length (objectIds ec') = count ec'
           \<and> (\<forall>i < count ec'.
                 objectIds ec' ! i =
                   (if nat ((page - 1) * pageSize) \<le> i
                       \<and> i < nat ((page - 1) * pageSize) + nat pageSize
                    then Some (objects resp ! (i - nat ((page - 1) * pageSize)))
                    else oldIds (contents this (or_null searchQuery)) resp ! i))"
proof -
  let ?key = "or_null searchQuery"
  let ?A = "nat ((page - 1) * pageSize)"
  let ?P = "nat pageSize"
  let ?old = "oldIds (contents this ?key) resp"
  let ?new = "map Some (objects resp)"
  let ?all = "take ?A ?old @ ?new @ drop (?A + ?P) ?old"
  let ?ec = "\<lparr>count = loaded_count resp, objectIds = ?all\<rparr>"
  from getContentObjects_fetch [of this searchQuery page pageSize loadFiltered meta resp, OF miss resp] call
  have t: "this' = this\<lparr>contents := (contents this)(?key \<mapsto> ?ec)\<rparr>"
    by (simp add: merge_ids_old [OF pg])
  have len: "length ?old = loaded_count resp"
    by (rule length_oldIds [OF inv])
  have lnew: "length ?new = min ?P (loaded_count resp - ?A)"
    using full by simp
  have 1: "contents this' ?key = Some ?ec"
    by (simp add: t)
  have 2: "length (objectIds ?ec) = count ?ec"
    using merged_length [OF len lnew] by simp
  have 3: "objectIds ?ec ! i =
             (if ?A \<le> i \<and> i < ?A + ?P then Some (objects resp ! (i - ?A)) else ?old ! i)"
    if "i < count ?ec" for i
  proof -
    from that have i: "i < loaded_count resp" by simp
    show ?thesis
    proof (cases "?A \<le> i \<and> i < ?A + ?P")
      case True
      with i full have "i - ?A < length (objects resp)" by arith
      with True show ?thesis
        using merged_nth [OF len lnew i] by simp
    next
      case False
      then show ?thesis
        using merged_nth [OF len lnew i] by auto
    qed
  qed
  from 1 2 3 show ?thesis
    by (intro exI [of _ ?ec]) simp
qed

theorem getContentObjects_merge_invariant_witness:
  "\<exists>ec'. contents (fst (snd (getContentObjects Album_rootModelMeta (\<lambda>r. Inr (Loaded 5 [15])) 3 2 None
              \<lparr>model_id = 7, roots = Map.empty,
               contents = [None \<mapsto> \<lparr>count = 5, objectIds = [Some 11, Some 12, None, None, None]\<rparr>]\<rparr>)))
            (or_null None) = Some ec'
     \<and> count ec' = 5 \<and> length (objectIds ec') = 5
     \<and> objectIds ec' ! 0 = Some 11 \<and> objectIds ec' ! 1 = Some 12 \<and> objectIds ec' ! 2 = None
     \<and> objectIds ec' ! 3 = None \<and> objectIds ec' ! 4 = Some 15"
proof -
  let ?ec = "\<lparr>count = 5, objectIds = [Some 11, Some 12, None, None, None]\<rparr>"
  let ?S = "\<lparr>model_id = 7, roots = Map.empty, contents = [None \<mapsto> ?ec]\<rparr>"
  let ?lf = "\<lambda>r::request. (Inr (Loaded 5 [15]) :: error + loaded)"
  let ?run = "getContentObjects Album_rootModelMeta ?lf 3 2 None ?S"
  have pg: "(1::int) \<le> 3" "(0::int) < 2" by simp_all
  have miss: "from_cache (contents ?S (or_null None)) 3 2 = None"
    by (simp add: from_cache_def or_null_def slice_def slice_index_def)
  have inv: "case contents ?S (or_null None) of
           None \<Rightarrow> True
         | Some ec \<Rightarrow> length (objectIds ec) = count ec \<and> loaded_count (Loaded 5 [15]) = count ec"
    by (simp add: or_null_def)
  have resp: "?lf (contents_request Album_rootModelMeta ?S (or_null None) 3 2) = Inr (Loaded 5 [15])"
    by simp
  have full: "length (objects (Loaded 5 [15]))
           = min (nat 2) (loaded_count (Loaded 5 [15]) - nat ((3 - 1) * 2))"
    by simp
  have call: "?run = (fst ?run, fst (snd ?run), snd (snd ?run))"
    by simp
  from getContentObjects_merge_invariant [OF pg miss inv resp full call]
  obtain ec' where c: "contents (fst (snd ?run)) (or_null None) = Some ec'"
    and n: "count ec' = 5" and l: "length (objectIds ec') = 5"
    and s: "\<And>i. i < 5 \<Longrightarrow> objectIds ec' ! i =
                   (if 4 \<le> i \<and> i < 6 then Some ([15] ! (i - 4))
                    else oldIds (contents ?S (or_null None)) (Loaded 5 [15]) ! i)"
    by auto
  have "objectIds ec' ! 0 = Some 11" "objectIds ec' ! 1 = Some 12" "objectIds ec' ! 2 = None"
    "objectIds ec' ! 3 = None" "objectIds ec' ! 4 = Some 15"
    using s [of 0] s [of 1] s [of 2] s [of 3] s [of 4] by (simp_all add: or_null_def oldIds_def)
  with c n l show ?thesis
    by (intro exI [of _ ec']) simp
qed

text \<open>
  Claim C7. For a type that has roots: when nothing is stored for the search key, and
  the remote store answers, \<^verbatim>\<open>getRoots\<close> issues one \<^verbatim>\<open>loadFiltered\<close> call with the
  roots filter parameter set to the instance's id, the search key, and no page; it
  stores and returns the whole id list, and the same call made again returns the stored
  list without a remote call. When a list is stored it is returned without a remote
  call. Neither \<^verbatim>\<open>getRoots\<close> nor \<^verbatim>\<open>getContentObjects\<close> changes the roots or contents
  stored under any other search key (keys are compared after \<^verbatim>\<open>searchQuery || null\<close>).
\<close>

theorem getRoots_cached:
  "(hasRoots meta \<and> roots this (or_null searchQuery) = None
      \<and> loadFiltered (roots_request meta this (or_null searchQuery)) = Inr resp
    \<longrightarrow> getRoots meta loadFiltered searchQuery this
          = (Inr (Some (objects resp)),
             this\<lparr>roots := (roots this)(or_null searchQuery \<mapsto> objects resp)\<rparr>,
             [\<lparr>modelClass = modelName meta, filterParam = rootsFilterParam meta,
               filterValue = model_id this, search = or_null searchQuery, paging = None\<rparr>])
        \<and> getRoots meta loadFiltered' searchQuery
            (this\<lparr>roots := (roots this)(or_null searchQuery \<mapsto> objects resp)\<rparr>)
          = (Inr (Some (objects resp)),
             this\<lparr>roots := (roots this)(or_null searchQuery \<mapsto> objects resp)\<rparr>, []))
   \<and> (\<forall>ids. hasRoots meta \<and> roots this (or_null searchQuery) = Some ids
        \<longrightarrow> getRoots meta loadFiltered searchQuery this = (Inr (Some ids), this, []))
   \<and> (\<forall>k. k \<noteq> or_null searchQuery
        \<longrightarrow> roots (fst (snd (getRoots meta loadFiltered searchQuery this))) k = roots this k
          \<and> contents (fst (snd (getRoots meta loadFiltered searchQuery this))) k = contents this k
          \<and> roots (fst (snd (getContentObjects meta loadFiltered page pageSize searchQuery this))) k
              = roots this k
          \<and> contents (fst (snd (getContentObjects meta loadFiltered page pageSize searchQuery this))) k
              = contents this k)"
proof (intro conjI allI impI)
  assume h: "hasRoots meta \<and> roots this (or_null searchQuery) = None
      \<and> loadFiltered (roots_request meta this (or_null searchQuery)) = Inr resp"
  then show "getRoots meta loadFiltered searchQuery this
          = (Inr (Some (objects resp)),
             this\<lparr>roots := (roots this)(or_null searchQuery \<mapsto> objects resp)\<rparr>,
             [\<lparr>modelClass = modelName meta, filterParam = rootsFilterParam meta,
               filterValue = model_id this, search = or_null searchQuery, paging = None\<rparr>])"
    by (simp add: getRoots_def roots_request_def Let_def)
  from h show "getRoots meta loadFiltered' searchQuery
            (this\<lparr>roots := (roots this)(or_null searchQuery \<mapsto> objects resp)\<rparr>)
          = (Inr (Some (objects resp)),
             this\<lparr>roots := (roots this)(or_null searchQuery \<mapsto> objects resp)\<rparr>, [])"
    by (simp add: getRoots_def Let_def)
next
  fix ids
  assume "hasRoots meta \<and> roots this (or_null searchQuery) = Some ids"
  then show "getRoots meta loadFiltered searchQuery this = (Inr (Some ids), this, [])"
    by (simp add: getRoots_def Let_def)
next
  fix k
  assume k: "k \<noteq> or_null searchQuery"
  then show "roots (fst (snd (getRoots meta loadFiltered searchQuery this))) k = roots this k"
    by (simp add: getRoots_def Let_def split: option.splits sum.splits)
  show "contents (fst (snd (getRoots meta loadFiltered searchQuery this))) k = contents this k"
    by (simp add: getRoots_def Let_def split: option.splits sum.splits)
  show "roots (fst (snd (getContentObjects meta loadFiltered page pageSize searchQuery this))) k
              = roots this k"
    by (simp add: getContentObjects_def Let_def split: option.splits sum.splits)
  from k show "contents (fst (snd (getContentObjects meta loadFiltered page pageSize searchQuery this))) k
              = contents this k"
    by (simp add: getContentObjects_def Let_def split: option.splits sum.splits)
qed

theorem getRoots_cached_witness:
  "getRoots \<lparr>modelName = ''Folder'', hasRoots = True, rootsFilterParam = ''parent'',
             contentsFilterParam = ''folder'', contentsClass = ''FileObject''\<rparr>
       (\<lambda>r. Inr (Loaded 2 [21, 22])) (Some ''cat'')
       \<lparr>model_id = 7, roots = [None \<mapsto> [3]], contents = Map.empty\<rparr>
     = (Inr (Some [21, 22]),
        \<lparr>model_id = 7, roots = [None \<mapsto> [3], Some ''cat'' \<mapsto> [21, 22]], contents = Map.empty\<rparr>,
        [\<lparr>modelClass = ''Folder'', filterParam = ''parent'', filterValue = 7,
          search = Some ''cat'', paging = None\<rparr>])
   \<and> getRoots \<lparr>modelName = ''Folder'', hasRoots = True, rootsFilterParam = ''parent'',
             contentsFilterParam = ''folder'', contentsClass = ''FileObject''\<rparr>
       (\<lambda>r. Inl NotFound) (Some ''cat'')
       \<lparr>model_id = 7, roots = [None \<mapsto> [3], Some ''cat'' \<mapsto> [21, 22]], contents = Map.empty\<rparr>
     = (Inr (Some [21, 22]),
        \<lparr>model_id = 7, roots = [None \<mapsto> [3], Some ''cat'' \<mapsto> [21, 22]], contents = Map.empty\<rparr>,
        [])
   \<and> roots (fst (snd (getRoots \<lparr>modelName = ''Folder'', hasRoots = True, rootsFilterParam = ''parent'',
             contentsFilterParam = ''folder'', contentsClass = ''FileObject''\<rparr>
       (\<lambda>r. Inr (Loaded 2 [21, 22])) (Some ''cat'')
       \<lparr>model_id = 7, roots = [None \<mapsto> [3]], contents = Map.empty\<rparr>))) None = Some [3]
   \<and> getRoots \<lparr>modelName = ''Folder'', hasRoots = True, rootsFilterParam = ''parent'',
             contentsFilterParam = ''folder'', contentsClass = ''FileObject''\<rparr>
       (\<lambda>r. Inr (Loaded 2 [21, 22])) None
       \<lparr>model_id = 7, roots = [None \<mapsto> [3]], contents = Map.empty\<rparr>
     = (Inr (Some [3]), \<lparr>model_id = 7, roots = [None \<mapsto> [3]], contents = Map.empty\<rparr>, [])"
proof -
  let ?M = "\<lparr>modelName = ''Folder'', hasRoots = True, rootsFilterParam = ''parent'',
             contentsFilterParam = ''folder'', contentsClass = ''FileObject''\<rparr>"
  let ?S = "\<lparr>model_id = 7, roots = [None \<mapsto> [3::int]], contents = Map.empty\<rparr>"
  let ?lf = "\<lambda>r::request. (Inr (Loaded 2 [21, 22]) :: error + loaded)"
  note T = getRoots_cached [where meta = ?M and this = ?S and searchQuery = "Some ''cat''"
      and loadFiltered = ?lf and loadFiltered' = "\<lambda>r. Inl NotFound" and resp = "Loaded 2 [21, 22]"]
  have h: "hasRoots ?M \<and> roots ?S (or_null (Some ''cat'')) = None
      \<and> ?lf (roots_request ?M ?S (or_null (Some ''cat''))) = Inr (Loaded 2 [21, 22])"
    by (simp add: or_null_def)
  have k: "None \<noteq> or_null (Some ''cat'')"
    by (simp add: or_null_def)
  have h2: "hasRoots ?M \<and> roots ?S (or_null None) = Some [3]"
    by (simp add: or_null_def)
  from T [THEN conjunct1, rule_format, OF h]
       T [THEN conjunct2, THEN conjunct2, rule_format, OF k, THEN conjunct1]
       getRoots_cached [where meta = ?M and this = ?S and searchQuery = None
         and loadFiltered = ?lf, THEN conjunct2, THEN conjunct1, rule_format, OF h2]
  show ?thesis
    by (simp add: or_null_def)
qed

section \<open>Adding files resets the album and its ancestors\<close>


lemma resetData_fields [simp]:
  "model_id (resetData a) = model_id a" "parentID (resetData a) = parentID a"
  "resetData (resetData a) = resetData a"
  by (simp_all add: resetData_def)






lemma addFile_multiple:
  assumes "reg this = Some a" and "model_id a = this"
  shows "addFile create reg this fileId True =
           Some (case create this fileId of None \<Rightarrow> Pending | Some (Inl e) \<Rightarrow> Rejected e
                 | Some (Inr u) \<Rightarrow> Fulfilled (), reg, [CreateAlbumFile this fileId])"
  using assms by (simp add: addFile_def split: option.splits sum.splits)

lemma addFile_step_create:
  assumes "reg this = Some a" and "model_id a = this"
  shows "addFile_step create reg this = (\<lambda>fileId accumulator. create this fileId)"
  by (auto simp: addFile_step_def addFile_multiple [where reg = reg and this = this, OF assms] fun_eq_iff
      split: option.splits sum.splits)

lemma addFile_calls_create:
  assumes "reg this = Some a" and "model_id a = this"
  shows "addFile_calls create reg this fileId = [CreateAlbumFile this fileId]"
  by (simp add: addFile_calls_def addFile_multiple [where reg = reg and this = this, OF assms])



lemma pipeline_first_reject:
  assumes "\<forall>x \<in> set xs. step x () = Some (Inr ())" and "step y () = Some (Inl e)"
  shows "pipeline_result step () (xs @ y # ys) = Rejected e"
    and "pipeline_calls step () (xs @ y # ys) = map (\<lambda>x. (x, ())) (xs @ [y])"
  using assms by (induction xs) simp_all

lemma addFiles_pipeline:
  assumes "reg this = Some a" and "model_id a = this"
  shows "addFiles create reg this files =
     (case pipeline_result (\<lambda>fileId accumulator. create this fileId) () files of
        Pending \<Rightarrow> Some (Pending, reg,
          map (\<lambda>(fileId, _). CreateAlbumFile this fileId)
            (pipeline_calls (\<lambda>fileId accumulator. create this fileId) () files))
      | Rejected e \<Rightarrow> Some (Rejected e, reg,
          map (\<lambda>(fileId, _). CreateAlbumFile this fileId)
            (pipeline_calls (\<lambda>fileId accumulator. create this fileId) () files))
      | Fulfilled _ \<Rightarrow>
          (case updateParents reg this of
             None \<Rightarrow> None
           | Some (Inl e, reg', calls') \<Rightarrow> Some (Rejected e, reg',
               map (\<lambda>(fileId, _). CreateAlbumFile this fileId)
                 (pipeline_calls (\<lambda>fileId accumulator. create this fileId) () files) @ calls')
           | Some (Inr _, reg', calls') \<Rightarrow> Some (Fulfilled (), reg',
               map (\<lambda>(fileId, _). CreateAlbumFile this fileId)
                 (pipeline_calls (\<lambda>fileId accumulator. create this fileId) () files) @ calls')))"
proof -
  have c: "concat (map (\<lambda>(fileId, _). addFile_calls create reg this fileId) cs)
             = map (\<lambda>(fileId, _). CreateAlbumFile this fileId) cs" for cs :: "(int \<times> unit) list"
    by (induction cs)
       (auto simp: addFile_calls_create [where reg = reg and this = this, OF assms])
  let ?step = "\<lambda>fileId (accumulator::unit). create this fileId"
  have st: "addFile_step create reg this = ?step"
    by (rule addFile_step_create [where reg = reg and this = this, OF assms])
  have ch: "chain (promiseChain False False files (settle ?step) ()) = pipeline_result ?step () files"
    by (rule promiseChain_chain)
  have cl: "step_calls (effects (promiseChain False False files (settle ?step) ()))
              = pipeline_calls ?step () files"
    by (rule promiseChain_calls)
  show ?thesis
    unfolding addFiles_def Let_def st ch cl c by (rule refl)
qed






text \<open>
  When a create is rejected, \<^verbatim>\<open>addFiles\<close> is rejected with its reason after the
  creates up to that file; \<^verbatim>\<open>updateParents\<close> is not reached.
\<close>

lemma addFiles_rejected:
  assumes chain: "parent_chain reg (Some this) ids"
    and ok: "\<forall>fileId \<in> set xs. create this fileId = Some (Inr ())"
    and bad: "create this y = Some (Inl e)"
  shows "addFiles create reg this (xs @ y # ys) =
           Some (Rejected e, reg, map (CreateAlbumFile this) (xs @ [y]))"
proof -
  from chain obtain a where a: "reg this = Some a" "model_id a = this"
    by (auto elim: parent_chain.cases)
  have m: "map (\<lambda>(fileId, _). CreateAlbumFile this fileId) (map (\<lambda>x. (x, ())) zs)
             = map (CreateAlbumFile this) zs" for zs
    by simp
  show ?thesis
    using pipeline_first_reject [where step = "\<lambda>fileId accumulator. create this fileId", OF ok bad]
    by (simp add: addFiles_pipeline [where reg = reg and this = this, OF a] m)
qed

section \<open>The geotag of a file survives serialisation\<close>

lemma addObject_registers:
  assumes "addObject w reg = (g, reg1)"
  shows "geotag_id g = wire_id w" and "reg1 (wire_id w) = Some g"
  using assms by (auto simp: addObject_def Let_def)

lemma set_flag_registered:
  assumes "reg i = Some g"
  shows "\<exists>reg' g'. set_flag flag upd i reg = Inr reg' \<and> reg' i = Some g'"
  using assms by (simp add: set_flag_def getById_def)

lemma deserialize_stores_id:
  "\<exists>file' reg'. deserialize fileObj (Some w) reg = Inr (file', reg')
      \<and> geotagID file' = Some (wire_id w)"
proof -
  obtain g reg1 where a: "addObject w reg = (g, reg1)"
    by (cases "addObject w reg")
  note r = addObject_registers [OF a]
  from set_flag_registered [where reg = reg1 and i = "wire_id w", OF r(2)]
  obtain reg2 g2 where f1: "set_flag (wire_locationModified w) (\<lambda>g. g\<lparr>locationModified := True\<rparr>)
      (wire_id w) reg1 = Inr reg2" and r2: "reg2 (wire_id w) = Some g2"
    by blast
  from set_flag_registered [where reg = reg2 and i = "wire_id w", OF r2]
  obtain reg3 g3 where f2: "set_flag (wire_areaModified w) (\<lambda>g. g\<lparr>areaModified := True\<rparr>)
      (wire_id w) reg2 = Inr reg3" and r3: "reg3 (wire_id w) = Some g3"
    by blast
  have "deserialize fileObj (Some w) reg = Inr (fileObj\<lparr>geotagID := Some (wire_id w)\<rparr>, reg3)"
    by (simp add: deserialize_def a r(1) f1 f2)
  then show ?thesis by simp
qed

lemma serialize_unfold:
  "serialize areas (Some g) =
     (if areaModified g
      then (case area areas g of
              Inl e \<Rightarrow> Inl e
            | Inr a \<Rightarrow> Inr (Some \<lparr>wire_id = geotag_id g,
                 wire_latitude = (if locationModified g then latitude g else None),
                 wire_longitude = (if locationModified g then longitude g else None),
                 wire_area = Some (map_option area_id a),
                 wire_locationModified = False, wire_areaModified = False\<rparr>))
      else Inr (Some \<lparr>wire_id = geotag_id g,
                 wire_latitude = (if locationModified g then latitude g else None),
                 wire_longitude = (if locationModified g then longitude g else None),
                 wire_area = None,
                 wire_locationModified = False, wire_areaModified = False\<rparr>))"
  by (simp add: serialize_def Let_def split: sum.splits option.splits)




lemma serialize_wire_id:
  assumes "serialize areas (Some g) = Inr w"
  shows "map_option wire_id w = Some (geotag_id g)"
proof (cases "areaModified g")
  case False
  then have "serialize areas (Some g) = Inr (Some \<lparr>wire_id = geotag_id g,
                 wire_latitude = (if locationModified g then latitude g else None),
                 wire_longitude = (if locationModified g then longitude g else None),
                 wire_area = None,
                 wire_locationModified = False, wire_areaModified = False\<rparr>)"
    by (simp add: serialize_unfold)
  with assms have "w = Some \<lparr>wire_id = geotag_id g,
                 wire_latitude = (if locationModified g then latitude g else None),
                 wire_longitude = (if locationModified g then longitude g else None),
                 wire_area = None,
                 wire_locationModified = False, wire_areaModified = False\<rparr>"
    by (simp only: sum.inject)
  then show ?thesis by simp
next
  case True
  show ?thesis
  proof (cases "area areas g")
    case (Inl e)
    with True have "serialize areas (Some g) = Inl e"
      by (simp add: serialize_unfold)
    with assms show ?thesis by simp
  next
    case (Inr a)
    with True have "serialize areas (Some g) = Inr (Some \<lparr>wire_id = geotag_id g,
                 wire_latitude = (if locationModified g then latitude g else None),
                 wire_longitude = (if locationModified g then longitude g else None),
                 wire_area = Some (map_option area_id a),
                 wire_locationModified = False, wire_areaModified = False\<rparr>)"
      by (simp add: serialize_unfold)
    with assms have "w = Some \<lparr>wire_id = geotag_id g,
                 wire_latitude = (if locationModified g then latitude g else None),
                 wire_longitude = (if locationModified g then longitude g else None),
                 wire_area = Some (map_option area_id a),
                 wire_locationModified = False, wire_areaModified = False\<rparr>"
      by (simp only: sum.inject)
    then show ?thesis by simp
  qed
qed

lemma serialize_id:
  assumes "serialize areas (Some g) = Inr w"
  shows "\<exists>w'. w = Some w' \<and> wire_id w' = geotag_id g"
proof -
  from serialize_wire_id [OF assms] obtain w' where "w = Some w'" and "wire_id w' = geotag_id g"
    by (cases w) simp_all
  then show ?thesis by (intro exI [of _ w'] conjI)
qed

lemma serialize_defined:
  assumes "areaModified g \<longrightarrow> (case areaID g of None \<Rightarrow> True | Some i \<Rightarrow> areas i \<noteq> None)"
  shows "\<exists>w. serialize areas (Some g) = Inr (Some w)"
proof (cases "areaModified g")
  case False
  then have "serialize areas (Some g) = Inr (Some \<lparr>wire_id = geotag_id g,
                 wire_latitude = (if locationModified g then latitude g else None),
                 wire_longitude = (if locationModified g then longitude g else None),
                 wire_area = None,
                 wire_locationModified = False, wire_areaModified = False\<rparr>)"
    by (simp add: serialize_unfold)
  then show ?thesis by (rule exI)
next
  case True
  with assms obtain a where "area areas g = Inr a"
    by (auto simp: area_def getById_def split: option.splits)
  with True have "serialize areas (Some g) = Inr (Some \<lparr>wire_id = geotag_id g,
                 wire_latitude = (if locationModified g then latitude g else None),
                 wire_longitude = (if locationModified g then longitude g else None),
                 wire_area = Some (map_option area_id a),
                 wire_locationModified = False, wire_areaModified = False\<rparr>)"
    by (simp add: serialize_unfold)
  then show ?thesis by (rule exI)
qed

text \<open>
  Claim C9. A null geotag serialises to the null wire value, and the null wire value
  deserialises to a null stored id. For a geotag \<open>g\<close>, every wire value that
  \<^verbatim>\<open>serialize\<close> produces carries the id of \<open>g\<close>, and deserialising it stores that id
  as the file's geotag id. \<^verbatim>\<open>serialize\<close> produces a wire value whenever it does not
  need an unregistered area (the area is read only when \<^verbatim>\<open>areaModified\<close> is set).
\<close>

theorem geotag_round_trip:
  "serialize areas None = Inr None
   \<and> deserialize fileObj None reg = Inr (fileObj\<lparr>geotagID := None\<rparr>, reg)
   \<and> (\<forall>w. serialize areas (Some g) = Inr w
        \<longrightarrow> (\<exists>w' file' reg'. w = Some w' \<and> wire_id w' = geotag_id g
              \<and> deserialize fileObj w reg = Inr (file', reg')
              \<and> geotagID file' = Some (geotag_id g)))
   \<and> ((areaModified g \<longrightarrow> (case areaID g of None \<Rightarrow> True | Some i \<Rightarrow> areas i \<noteq> None))
        \<longrightarrow> (\<exists>w. serialize areas (Some g) = Inr (Some w)))"
proof (intro conjI allI impI)
  show "serialize areas None = Inr None"
    by (simp add: serialize_def)
  show "deserialize fileObj None reg = Inr (fileObj\<lparr>geotagID := None\<rparr>, reg)"
    by (simp add: deserialize_def)
next
  fix w
  assume "serialize areas (Some g) = Inr w"
  then obtain w' where w: "w = Some w'" "wire_id w' = geotag_id g"
    using serialize_id by blast
  with deserialize_stores_id [of fileObj w' reg]
  show "\<exists>w' file' reg'. w = Some w' \<and> wire_id w' = geotag_id g
              \<and> deserialize fileObj w reg = Inr (file', reg')
              \<and> geotagID file' = Some (geotag_id g)"
    by auto
next
  assume "areaModified g \<longrightarrow> (case areaID g of None \<Rightarrow> True | Some i \<Rightarrow> areas i \<noteq> None)"
  then show "\<exists>w. serialize areas (Some g) = Inr (Some w)"
    by (rule serialize_defined)
qed

theorem geotag_round_trip_witness:
  "\<exists>w' file' reg'.
      serialize [9 \<mapsto> \<lparr>area_id = 9, area_name = ''Home''\<rparr>]
        (Some \<lparr>geotag_id = 5, latitude = Some (51::int), longitude = Some 0, areaID = Some 9,
               locationModified = True, areaModified = True\<rparr>) = Inr (Some w')
      \<and> wire_id w' = 5
      \<and> deserialize \<lparr>file_id = 1, geotagID = None\<rparr> (Some w') Map.empty = Inr (file', reg')
      \<and> geotagID file' = Some 5"
proof -
  let ?areas = "[9 \<mapsto> \<lparr>area_id = 9, area_name = ''Home''\<rparr>]"
  let ?g = "\<lparr>geotag_id = 5, latitude = Some (51::int), longitude = Some 0, areaID = Some 9,
               locationModified = True, areaModified = True\<rparr>"
  note T = geotag_round_trip [where areas = ?areas and g = ?g
      and fileObj = "\<lparr>file_id = 1, geotagID = None\<rparr>" and reg = Map.empty]
  have h: "areaModified ?g \<longrightarrow> (case areaID ?g of None \<Rightarrow> True | Some i \<Rightarrow> ?areas i \<noteq> None)"
    by simp
  from T [THEN conjunct2, THEN conjunct2, THEN conjunct2, THEN mp, OF h]
  obtain w where w: "serialize ?areas (Some ?g) = Inr (Some w)" by blast
  from T [THEN conjunct2, THEN conjunct2, THEN conjunct1, rule_format, OF w]
  obtain w' file' reg' where "Some w = Some w'" "wire_id w' = geotag_id ?g"
    "deserialize \<lparr>file_id = 1, geotagID = None\<rparr> (Some w) Map.empty = Inr (file', reg')"
    "geotagID file' = Some (geotag_id ?g)"
    by blast
  with w show ?thesis
    by (intro exI [of _ w'] exI [of _ file'] exI [of _ reg']) simp
qed

end
